theory Spec2Isabelle
  imports Main "HOL-Library.Sublist"
begin

section \<open>Python string operations used by the automation engine\<close>

text \<open>
  Strings are byte lists. The functions below follow Python's \<^verbatim>\<open>str\<close> methods on
  ASCII text: \<^verbatim>\<open>upper\<close>, \<^verbatim>\<open>lower\<close>, \<^verbatim>\<open>in\<close>, \<^verbatim>\<open>split\<close>,
  \<^verbatim>\<open>strip\<close> and slicing. Bytes outside ASCII are left unchanged by the case maps.
\<close>

definition upper_char :: "char \<Rightarrow> char" where
  "upper_char c =
     (let n = (of_char c :: nat) in if 97 \<le> n \<and> n \<le> 122 then char_of (n - 32) else c)"

definition lower_char :: "char \<Rightarrow> char" where
  "lower_char c =
     (let n = (of_char c :: nat) in if 65 \<le> n \<and> n \<le> 90 then char_of (n + 32) else c)"

definition upper :: "string \<Rightarrow> string" where
  "upper s = map upper_char s"

definition lower :: "string \<Rightarrow> string" where
  "lower s = map lower_char s"

text \<open>\<^verbatim>\<open>s.startswith(p)\<close>.\<close>

fun startswith :: "string \<Rightarrow> string \<Rightarrow> bool" where
  "startswith s [] = True"
| "startswith [] (p # ps) = False"
| "startswith (c # cs) (p # ps) = (c = p \<and> startswith cs ps)"

text \<open>\<^verbatim>\<open>sub in s\<close>: \<open>contains s sub\<close>.\<close>

fun contains :: "string \<Rightarrow> string \<Rightarrow> bool" where
  "contains [] sub = (sub = [])"
| "contains (c # cs) sub = (startswith (c # cs) sub \<or> contains cs sub)"

text \<open>\<^verbatim>\<open>s.split(sep)\<close> for a one-character separator: always at least one piece.\<close>

fun split_on :: "char \<Rightarrow> string \<Rightarrow> string list" where
  "split_on sep [] = [[]]"
| "split_on sep (c # cs) =
     (if c = sep then [] # split_on sep cs
      else (case split_on sep cs of
              [] \<Rightarrow> [[c]]
            | p # ps \<Rightarrow> (c # p) # ps))"

text \<open>\<^verbatim>\<open>s.split(sep, 1)[1]\<close>: the text after the first separator, an
  \<^verbatim>\<open>IndexError\<close> (here \<open>None\<close>) when there is none.\<close>

fun after_first :: "char \<Rightarrow> string \<Rightarrow> string option" where
  "after_first sep [] = None"
| "after_first sep (c # cs) = (if c = sep then Some cs else after_first sep cs)"

text \<open>Python's \<^verbatim>\<open>str.isspace\<close> on ASCII: tab, LF, VT, FF, CR, FS, GS, RS, US, space.\<close>

definition is_space :: "char \<Rightarrow> bool" where
  "is_space c = (let n = (of_char c :: nat) in (9 \<le> n \<and> n \<le> 13) \<or> (28 \<le> n \<and> n \<le> 32))"

definition strip :: "string \<Rightarrow> string" where
  "strip s = rev (dropWhile is_space (rev (dropWhile is_space s)))"

section \<open>Verdicts of the visual oracle\<close>

record verdict =
  verified :: bool
  confidence :: string
  description :: string
  raw_response :: string

section \<open>Classification of command output\<close>

text \<open>
  \<^verbatim>\<open>run_powershell_interactive\<close> and \<^verbatim>\<open>run_powershell_command\<close> (vm\_automation.py)
  share this block: the description is upper-cased, the negation phrases are looked for
  first, and the error indicators only when no negation phrase was found. With no
  verdict (no oracle, or the capture failed) the command counts as error-free.
\<close>

definition negation_phrases :: "string list" where
  "negation_phrases =
     [''NO RED'', ''NO ERROR'', ''NO ERRORS'', ''WITHOUT ERROR'', ''WITHOUT RED'']"

definition error_indicators :: "string list" where
  "error_indicators =
     [''RED TEXT'', ''RED ERROR'', ''ERROR TEXT IN RED'', ''ERROR MESSAGE IS DISPLAYED'',
      ''ERROR MESSAGE IS VISIBLE'', ''DISPLAYS AN ERROR MESSAGE'', ''SHOWS AN ERROR MESSAGE'',
      ''ACCESS IS DENIED'', ''PERMISSION IS DENIED'', ''THE TERMINAL SHOWS THE ERROR OUTPUT'']"

definition has_negation :: "string \<Rightarrow> bool" where
  "has_negation d = list_ex (\<lambda>neg. contains d neg) negation_phrases"

definition command_has_error :: "verdict option \<Rightarrow> bool" where
  "command_has_error verification =
     (case verification of
        None \<Rightarrow> False
      | Some v \<Rightarrow>
          (let d = upper (description v) in
           if \<not> has_negation d then list_ex (\<lambda>indicator. contains d indicator) error_indicators
           else False))"

section \<open>The visual oracle adapter (llm\_client.py)\<close>

text \<open>
  The oracle's reply is what \<^verbatim>\<open>analyze_screenshot\<close> returns: a text (the model's
  answer, or the \<^verbatim>\<open>ERROR: ...\<close> text it produces when the request fails), or
  \<open>None\<close> when the completion carries no content. A \<open>None\<close> reply makes
  \<^verbatim>\<open>response.upper()\<close> raise, which the \<^verbatim>\<open>except\<close> branch of the adapter turns
  into its error result.
\<close>

definition newline :: char where
  "newline = CHR 0x0A"

definition colon :: char where
  "colon = CHR 0x3A"

definition backslash :: char where
  "backslash = CHR 0x5C"

definition apostrophe :: char where
  "apostrophe = CHR 0x27"

text \<open>The message of the \<^verbatim>\<open>AttributeError\<close> raised by a method call on \<open>None\<close>.\<close>

definition none_has_no_attribute :: "string \<Rightarrow> string" where
  "none_has_no_attribute m =
     [apostrophe] @ ''NoneType'' @ [apostrophe] @ '' object has no attribute '' @
     [apostrophe] @ m @ [apostrophe]"

text \<open>
  The loop of \<^verbatim>\<open>verify_ui_state\<close> over the lines of the upper-cased reply. \<open>None\<close>
  stands for the \<^verbatim>\<open>IndexError\<close> of \<^verbatim>\<open>line.split(':', 1)[1]\<close> on a line with
  no colon.
\<close>

fun verify_lines :: "string list \<Rightarrow> verdict \<Rightarrow> verdict option" where
  "verify_lines [] result = Some result"
| "verify_lines (line # lines) result =
     (if contains line ''VERIFIED:'' then
        verify_lines lines (result\<lparr>verified := contains line ''YES''\<rparr>)
      else if contains line ''CONFIDENCE:'' then
        (case after_first colon line of
           None \<Rightarrow> None
         | Some rest \<Rightarrow>
             (let conf = lower (strip rest) in
              if conf \<in> set [''high'', ''medium'', ''low'']
              then verify_lines lines (result\<lparr>confidence := conf\<rparr>)
              else verify_lines lines result))
      else if contains line ''DESCRIPTION:'' then
        (case after_first colon line of
           None \<Rightarrow> None
         | Some rest \<Rightarrow> verify_lines lines (result\<lparr>description := strip rest\<rparr>))
      else verify_lines lines result)"

definition verify_error :: "string \<Rightarrow> verdict" where
  "verify_error msg =
     \<lparr>verified = False, confidence = ''error'',
      description = ''Error during verification: '' @ msg, raw_response = []\<rparr>"

definition verify_ui_state :: "string option \<Rightarrow> verdict" where
  "verify_ui_state reply =
     (case reply of
        None \<Rightarrow> verify_error (none_has_no_attribute ''upper'')
      | Some response \<Rightarrow>
          (case verify_lines (split_on newline (upper response))
                  \<lparr>verified = False, confidence = ''low'',
                   description = response, raw_response = response\<rparr> of
             None \<Rightarrow> verify_error ''list index out of range''
           | Some result \<Rightarrow> result))"

text \<open>
  The result of \<^verbatim>\<open>detect_login_fields\<close>. The raw reply it also stores is never read
  and is left out. A missing \<^verbatim>\<open>displayed_username\<close> key reads as \<open>None\<close>.
\<close>

record field_detection =
  has_username :: bool
  has_password :: bool
  displayed_username :: "string option"
  fd_description :: string

text \<open>\<^verbatim>\<open>line.split(':', 1)[1] if ':' in line else ""\<close>.\<close>

definition after_colon :: "string \<Rightarrow> string" where
  "after_colon line = (case after_first colon line of None \<Rightarrow> [] | Some rest \<Rightarrow> rest)"

definition detect_line :: "field_detection \<Rightarrow> string \<Rightarrow> field_detection" where
  "detect_line result line =
     (let line_upper = upper line in
      if contains line_upper ''USERNAME_FIELD:'' \<or> contains line_upper ''USERNAME FIELD:'' then
        result\<lparr>has_username := contains line_upper ''YES''\<rparr>
      else if contains line_upper ''PASSWORD_FIELD:'' \<or> contains line_upper ''PASSWORD FIELD:'' then
        result\<lparr>has_password := contains line_upper ''YES''\<rparr>
      else if contains line_upper ''DISPLAYED_USERNAME:'' \<or>
              contains line_upper ''DISPLAYED USERNAME:'' then
        (let username = strip (after_colon line) in
         result\<lparr>displayed_username := (if lower username \<noteq> ''none'' then Some username else None)\<rparr>)
      else if contains line_upper ''DESCRIPTION:'' then
        result\<lparr>fd_description := strip (after_colon line)\<rparr>
      else result)"

definition detect_login_fields :: "string option \<Rightarrow> field_detection" where
  "detect_login_fields reply =
     (case reply of
        None \<Rightarrow>
          \<lparr>has_username = True, has_password = True, displayed_username = None,
           fd_description = ''Error during detection: '' @ none_has_no_attribute ''split''\<rparr>
      | Some response \<Rightarrow>
          (let result = foldl detect_line
                 \<lparr>has_username = False, has_password = False, displayed_username = None,
                  fd_description = []\<rparr>
                 (split_on newline response)
           in if fd_description result = [] then result\<lparr>fd_description := take 200 response\<rparr>
              else result))"

section \<open>Pure decisions of the login protocol (vm\_automation.py, \<^verbatim>\<open>login_windows\<close>)\<close>

text \<open>
  The field detection used by the protocol (lines 213--227): with an oracle, the
  adapter's result unless its description is empty or it found neither field; the
  password-only assumption otherwise.
\<close>

definition password_only :: "string \<Rightarrow> field_detection" where
  "password_only d =
     \<lparr>has_username = False, has_password = True, displayed_username = None, fd_description = d\<rparr>"

definition initial_field_detection :: "bool \<Rightarrow> string option \<Rightarrow> field_detection" where
  "initial_field_detection llm_client reply =
     (if llm_client then
        (let field_detection = detect_login_fields reply in
         if fd_description field_detection = [] \<or>
            (\<not> has_username field_detection \<and> \<not> has_password field_detection)
         then password_only ''Fallback: password only''
         else field_detection)
      else password_only ''No LLM: password only'')"

text \<open>\<^verbatim>\<open>u.split('\\')[-1] if '\\' in u else u\<close>.\<close>

definition strip_domain :: "string \<Rightarrow> string" where
  "strip_domain u = (if backslash \<in> set u then last (split_on backslash u) else u)"

definition username_matches :: "string \<Rightarrow> string \<Rightarrow> bool" where
  "username_matches displayed_user username =
     (lower (strip_domain displayed_user) = lower (strip_domain username))"

text \<open>Exceptions: \<^verbatim>\<open>VMAutomationError\<close> with its message, and any other exception.\<close>

datatype exn = VMAutomationError string | OtherError string

definition str_exn :: "exn \<Rightarrow> string" where
  "str_exn e = (case e of VMAutomationError m \<Rightarrow> m | OtherError m \<Rightarrow> m)"

text \<open>
  The interpretation of the verdict on the screenshot taken after the credentials were
  submitted (lines 453--501): \<open>Inr True\<close> is \<^verbatim>\<open>login_verified = True\<close>, \<open>Inl\<close> the
  \<^verbatim>\<open>VMAutomationError\<close> raised. No verdict (no oracle, or the capture failed) counts
  as a success.
\<close>

definition login_verdict :: "verdict option \<Rightarrow> exn + bool" where
  "login_verdict verification =
     (case verification of
        None \<Rightarrow> Inr True
      | Some v \<Rightarrow>
          (let d = upper (description v) in
           if verified v then Inr True
           else if contains d ''SHUTDOWN EVENT TRACKER'' \<or> contains d ''SHUTDOWN'' then Inr True
           else if contains d ''DESKTOP'' \<and> contains d ''TASKBAR'' then Inr True
           else if contains d ''STILL ON LOGIN'' \<or> contains d ''SHOWING LOGIN'' \<or>
                   contains d ''AT LOGIN SCREEN'' then
             Inl (VMAutomationError (''Login FAILED - Still on login screen. AI saw: '' @ d))
           else if contains d ''INCORRECT PASSWORD'' \<or> contains d ''PASSWORD INCORRECT'' \<or>
                   contains d ''WRONG PASSWORD'' then
             Inl (VMAutomationError (''Login FAILED - Password incorrect. AI saw: '' @ d))
           else if contains d ''LOCKED'' \<and> contains d ''SCREEN'' then
             Inl (VMAutomationError (''Login FAILED - Screen is locked. AI saw: '' @ d))
           else if confidence v = ''low'' \<or> d = [] then Inr True
           else Inl (VMAutomationError
                  (''Login FAILED - AI verification did not detect Windows desktop. AI saw: '' @ d))))"

section \<open>The remote session: state, environment and primitive operations\<close>

text \<open>
  Every call the engine makes on the browser page is an \<open>event\<close>; the list of events
  issued so far is the session's trace and its length is the logical time. Waiting
  (\<^verbatim>\<open>time.sleep\<close>) and logging are not modelled.
\<close>

datatype event =
    Goto string
  | KeyPress string
  | KeyType string
  | KeyDown string
  | KeyUp string
  | ClickCanvas
  | ClickAt int int
  | CtrlAltDel
  | Screenshot string

text \<open>
  The mutable part of a \<^verbatim>\<open>VMAutomation\<close> object: \<^verbatim>\<open>self.screenshots\<close>,
  \<^verbatim>\<open>self.action_log\<close> (an entry is its action and its details; the timestamp is
  left out) and the trace of calls on \<^verbatim>\<open>self.page\<close>. The list
  \<^verbatim>\<open>self.verification_results\<close> is written and never read by the engine; it is left out.
\<close>

record vm_state =
  screenshots :: "string list"
  action_log :: "(string \<times> string) list"
  driver :: "event list"

text \<open>The constructor arguments that decide behaviour.\<close>

record config =
  llm_client :: bool
  max_retries :: int

text \<open>
  The environment. \<open>fault w t\<close> is the message of the exception that a keyboard or
  navigation call issued at time \<open>t\<close> raises, if it raises; \<open>shot_ok w name t\<close> tells
  whether \<^verbatim>\<open>page.screenshot\<close> for the capture \<open>name\<close> succeeds; \<open>vision w name t\<close> is
  the oracle's reply to the state check on that capture, \<open>detection w path t\<close> its reply
  to the field detection on the file \<open>path\<close>, and \<open>chat w step t\<close> the outcome of the
  text oracle asked for a command for \<open>step\<close> (\<^verbatim>\<open>LLMClient.chat\<close> re-raises).
\<close>

record world =
  fault :: "nat \<Rightarrow> string option"
  shot_ok :: "string \<Rightarrow> nat \<Rightarrow> bool"
  vision :: "string \<Rightarrow> nat \<Rightarrow> string option"
  detection :: "string \<Rightarrow> nat \<Rightarrow> string option"
  chat :: "string \<Rightarrow> nat \<Rightarrow> string + string"

definition now :: "vm_state \<Rightarrow> nat" where
  "now s = length (driver s)"

definition issue :: "event \<Rightarrow> vm_state \<Rightarrow> vm_state" where
  "issue ev s = s\<lparr>driver := driver s @ [ev]\<rparr>"

subsection \<open>Programs: state passing with exceptions\<close>

text \<open>
  A program takes the state and gives back a value or an exception together with the
  new state. The combinators work for any state; \<open>'a prog\<close> is a program of the engine.
\<close>

type_synonym 'a prog = "vm_state \<Rightarrow> (exn + 'a) \<times> vm_state"

definition ret :: "'a \<Rightarrow> 's \<Rightarrow> (exn + 'a) \<times> 's" where
  "ret x = (\<lambda>s. (Inr x, s))"

definition throw :: "exn \<Rightarrow> 's \<Rightarrow> (exn + 'a) \<times> 's" where
  "throw e = (\<lambda>s. (Inl e, s))"

definition bnd ::
  "('s \<Rightarrow> (exn + 'a) \<times> 's) \<Rightarrow> ('a \<Rightarrow> 's \<Rightarrow> (exn + 'b) \<times> 's) \<Rightarrow> 's \<Rightarrow> (exn + 'b) \<times> 's" where
  "bnd m f = (\<lambda>s. case m s of (Inl e, s') \<Rightarrow> (Inl e, s') | (Inr x, s') \<Rightarrow> f x s')"

text \<open>\<^verbatim>\<open>try: m except Exception as e: h e\<close>.\<close>

definition catch ::
  "('s \<Rightarrow> (exn + 'a) \<times> 's) \<Rightarrow> (exn \<Rightarrow> 's \<Rightarrow> (exn + 'a) \<times> 's) \<Rightarrow> 's \<Rightarrow> (exn + 'a) \<times> 's" where
  "catch m h = (\<lambda>s. case m s of (Inl e, s') \<Rightarrow> h e s' | (Inr x, s') \<Rightarrow> (Inr x, s'))"

definition void :: "'a prog \<Rightarrow> unit prog" where
  "void m = bnd m (\<lambda>_. ret ())"

text \<open>A block of statements run in order; the first exception leaves the block.\<close>

fun seqn :: "unit prog list \<Rightarrow> unit prog" where
  "seqn [] = ret ()"
| "seqn (m # ms) = bnd m (\<lambda>_. seqn ms)"

subsection \<open>Primitive operations\<close>

text \<open>\<^verbatim>\<open>_log_action\<close>.\<close>

definition log_action :: "string \<Rightarrow> string \<Rightarrow> unit prog" where
  "log_action action details =
     (\<lambda>s. (Inr (), s\<lparr>action_log := action_log s @ [(action, details)]\<rparr>))"

text \<open>
  A direct call on \<^verbatim>\<open>self.page\<close> (\<^verbatim>\<open>keyboard.press\<close>, \<^verbatim>\<open>keyboard.type\<close>,
  \<^verbatim>\<open>goto\<close>): it is issued and may raise.
\<close>

definition raw :: "world \<Rightarrow> event \<Rightarrow> unit prog" where
  "raw w ev =
     (\<lambda>s. case fault w (now s) of
             None \<Rightarrow> (Inr (), issue ev s)
           | Some msg \<Rightarrow> (Inl (OtherError msg), issue ev s))"

text \<open>
  \<^verbatim>\<open>_click_vnc_canvas\<close>, \<^verbatim>\<open>_click_vnc_at_coordinates\<close> and \<^verbatim>\<open>_send_ctrl_alt_del\<close>
  catch every exception themselves. How the canvas is found and the reference
  coordinates are rescaled is the driver's business and not modelled.
\<close>

definition click_vnc_canvas :: "unit prog" where
  "click_vnc_canvas = (\<lambda>s. (Inr (), issue ClickCanvas s))"

definition click_vnc_at_coordinates :: "int \<Rightarrow> int \<Rightarrow> unit prog" where
  "click_vnc_at_coordinates x y = (\<lambda>s. (Inr (), issue (ClickAt x y) s))"

definition send_ctrl_alt_del :: "unit prog" where
  "send_ctrl_alt_del = (\<lambda>s. (Inr (), issue CtrlAltDel s))"

text \<open>\<^verbatim>\<open>_type_char_vnc\<close>: the shift modifier is pressed, held and released explicitly.\<close>

definition shift_chars :: "(char \<times> char) list" where
  "shift_chars =
     [(CHR ''!'', CHR ''1''), (CHR ''@'', CHR ''2''), (CHR ''#'', CHR ''3''),
      (CHR ''$'', CHR ''4''), (CHR ''%'', CHR ''5''), (CHR ''^'', CHR ''6''),
      (CHR ''&'', CHR ''7''), (CHR ''*'', CHR ''8''), (CHR ''('', CHR ''9''),
      (CHR '')'', CHR ''0''), (CHR ''_'', CHR ''-''), (CHR ''+'', CHR ''=''),
      (CHR ''{'', CHR ''[''), (CHR ''}'', CHR '']''), (CHR ''|'', backslash),
      (CHR '':'', CHR '';''), (CHR 0x22, apostrophe), (CHR ''<'', CHR '',''),
      (CHR ''>'', CHR ''.''), (CHR ''?'', CHR ''/''), (CHR ''~'', CHR 0x60)]"

definition is_upper :: "char \<Rightarrow> bool" where
  "is_upper c = (let n = (of_char c :: nat) in 65 \<le> n \<and> n \<le> 90)"

definition with_shift :: "world \<Rightarrow> char \<Rightarrow> unit prog" where
  "with_shift w k = seqn [raw w (KeyDown ''Shift''), raw w (KeyType [k]), raw w (KeyUp ''Shift'')]"

definition type_char_vnc :: "world \<Rightarrow> char \<Rightarrow> unit prog" where
  "type_char_vnc w c =
     catch
       (if is_upper c then with_shift w (lower_char c)
        else (case map_of shift_chars c of
                Some base_key \<Rightarrow> with_shift w base_key
              | None \<Rightarrow> raw w (KeyType [c])))
       (\<lambda>e. ret ())"

text \<open>\<^verbatim>\<open>for char in text: self._type_char_vnc(char)\<close>.\<close>

definition type_text_vnc :: "world \<Rightarrow> string \<Rightarrow> unit prog" where
  "type_text_vnc w text = seqn (map (type_char_vnc w) text)"

text \<open>
  \<^verbatim>\<open>_capture_screenshot\<close>. The file is named after the capture (the directory and the
  timestamp prefix are left out). The expected-state prompt is only forwarded to the
  oracle, so a flag says whether a state check is requested. A failed capture returns
  the empty path and no verdict.
\<close>

definition capture_screenshot :: "world \<Rightarrow> config \<Rightarrow> string \<Rightarrow> bool \<Rightarrow> (string \<times> verdict option) prog" where
  "capture_screenshot w cfg name verify_state =
     (\<lambda>s. let t = now s; s1 = issue (Screenshot name) s in
           if shot_ok w name t then
             (let filepath = name @ ''.png'';
                  s2 = s1\<lparr>screenshots := screenshots s1 @ [filepath]\<rparr>;
                  verification =
                    (if verify_state \<and> llm_client cfg
                     then Some (verify_ui_state (vision w name t)) else None)
              in (Inr (filepath, verification), s2))
           else (Inr ([], None), s1))"

text \<open>Decimal rendering of a number in an f-string, and \<^verbatim>\<open>{i:02d}\<close>.\<close>

definition digit :: "nat \<Rightarrow> char" where
  "digit n = char_of (48 + n)"

function str_nat :: "nat \<Rightarrow> string" where
  "str_nat n = (if n < 10 then [digit n] else str_nat (n div 10) @ [digit (n mod 10)])"
  by pat_completeness auto
termination
  by (relation "measure id") auto

declare str_nat.simps [simp del]


subsection \<open>The retry loop\<close>

text \<open>
  \<^verbatim>\<open>for attempt in range(1, self.max_retries + 1): ...\<close> followed by
  \<^verbatim>\<open>return False\<close>. The body of an attempt either returns a result or continues with
  the next attempt. Together with the result, the loop gives the attempt numbers it
  ran, in order.
\<close>

datatype ctl = Return bool | Continue

function for_attempts ::
  "(nat \<Rightarrow> ctl prog) \<Rightarrow> int \<Rightarrow> nat \<Rightarrow> nat list \<Rightarrow> (bool \<times> nat list) prog" where
  "for_attempts body mx attempt tried s =
     (if int attempt \<le> mx then
        (case body attempt s of
           (Inl e, s') \<Rightarrow> (Inl e, s')
         | (Inr (Return b), s') \<Rightarrow> (Inr (b, tried @ [attempt]), s')
         | (Inr Continue, s') \<Rightarrow> for_attempts body mx (Suc attempt) (tried @ [attempt]) s')
      else (Inr (False, tried), s))"
  by pat_completeness auto
termination
  by (relation "measure (\<lambda>(body, mx, attempt, tried, s). nat (mx + 1 - int attempt))") auto

declare for_attempts.simps [simp del]

text \<open>
  The handler shared by the retried operations: a screenshot, then the next attempt
  if one is left.
\<close>

definition on_attempt_failure :: "world \<Rightarrow> config \<Rightarrow> string \<Rightarrow> nat \<Rightarrow> exn \<Rightarrow> ctl prog" where
  "on_attempt_failure w cfg name attempt e =
     bnd (capture_screenshot w cfg (name @ str_nat attempt) False) (\<lambda>_.
       if int attempt < max_retries cfg then ret Continue else ret (Return False))"

definition result_only :: "(bool \<times> nat list) prog \<Rightarrow> bool prog" where
  "result_only m = bnd m (\<lambda>(b, tried). ret b)"

section \<open>The interactive command protocol (vm\_automation.py)\<close>

text \<open>
  The check of the run dialog (lines 954--977 of \<^verbatim>\<open>run_powershell_interactive\<close>, 747--770
  of \<^verbatim>\<open>run_powershell_command\<close>): a lock screen returns \<open>False\<close> at once, an unverified
  dialog continues with the next attempt when one is left and returns \<open>False\<close>
  otherwise; \<open>None\<close> lets the attempt go on.
\<close>

definition lock_screen_seen :: "string \<Rightarrow> bool" where
  "lock_screen_seen d =
     (contains d ''CTRL+ALT+DELETE'' \<or> contains d ''UNLOCK'' \<or> contains d ''LOCK SCREEN'')"

definition run_dialog_check :: "config \<Rightarrow> nat \<Rightarrow> verdict option \<Rightarrow> ctl option" where
  "run_dialog_check cfg attempt verification =
     (case verification of
        None \<Rightarrow> None
      | Some v \<Rightarrow>
          (let d = upper (description v) in
           if lock_screen_seen d then Some (Return False)
           else if \<not> verified v then
             (if int attempt < max_retries cfg then Some Continue else Some (Return False))
           else None))"

text \<open>
  One attempt of the command protocol, up to the handler. The two command runners of
  the source are the same text but for the names of the output capture and of the
  failure capture, which are parameters here.
\<close>

definition powershell_attempt :: "world \<Rightarrow> config \<Rightarrow> string \<Rightarrow> string \<Rightarrow> nat \<Rightarrow> ctl prog" where
  "powershell_attempt w cfg output_name command attempt =
     bnd (seqn [log_action ''Open Run dialog'' ''Pressing Win+R'',
                click_vnc_canvas,
                raw w (KeyPress ''Meta+R'')]) (\<lambda>_.
     bnd (capture_screenshot w cfg (''09_run_dialog_opened_attempt'' @ str_nat attempt) True)
       (\<lambda>(screenshot_path, verification).
     case run_dialog_check cfg attempt verification of
       Some c \<Rightarrow> ret c
     | None \<Rightarrow>
         bnd (seqn [raw w (KeyType ''cmd.exe''),
                    void (capture_screenshot w cfg
                            (''09_run_dialog_typed_cmd_attempt'' @ str_nat attempt) False),
                    raw w (KeyPress ''Enter''),
                    void (capture_screenshot w cfg
                            (''09_cmd_window_opened_attempt'' @ str_nat attempt) False),
                    log_action ''Launch PowerShell from cmd'' ''Typing powershell.exe in cmd'',
                    raw w (KeyType ''powershell.exe''),
                    raw w (KeyPress ''Enter''),
                    void (capture_screenshot w cfg
                            (''09_powershell_prompt_ready_attempt'' @ str_nat attempt) True),
                    log_action (''Execute command: '' @ command) ''Typing command in PowerShell'',
                    type_text_vnc w command,
                    raw w (KeyPress ''Enter'')]) (\<lambda>_.
         bnd (capture_screenshot w cfg (output_name @ str_nat attempt) True)
           (\<lambda>(screenshot_path, verification).
         if command_has_error verification then
           (if int attempt < max_retries cfg
            then bnd (raw w (KeyPress ''Alt+F4'')) (\<lambda>_. ret Continue)
            else bnd (raw w (KeyPress ''Alt+F4'')) (\<lambda>_. ret (Return False)))
         else bnd (raw w (KeyPress ''Alt+F4'')) (\<lambda>_. ret (Return True))))))"

definition powershell_tries ::
  "world \<Rightarrow> config \<Rightarrow> string \<Rightarrow> string \<Rightarrow> string \<Rightarrow> (bool \<times> nat list) prog" where
  "powershell_tries w cfg output_name failed_name command =
     for_attempts
       (\<lambda>attempt. catch (powershell_attempt w cfg output_name command attempt)
                         (on_attempt_failure w cfg failed_name attempt))
       (max_retries cfg) 1 []"

definition run_powershell_interactive_tries :: "world \<Rightarrow> config \<Rightarrow> string \<Rightarrow> (bool \<times> nat list) prog" where
  "run_powershell_interactive_tries w cfg command =
     powershell_tries w cfg ''10_powershell_interactive_output_attempt''
       ''10_interactive_powershell_failed_attempt'' command"

definition run_powershell_interactive :: "world \<Rightarrow> config \<Rightarrow> string \<Rightarrow> bool prog" where
  "run_powershell_interactive w cfg command =
     result_only (run_powershell_interactive_tries w cfg command)"

definition run_powershell_command_tries :: "world \<Rightarrow> config \<Rightarrow> string \<Rightarrow> (bool \<times> nat list) prog" where
  "run_powershell_command_tries w cfg command =
     powershell_tries w cfg ''10_powershell_command_executed_attempt''
       ''10_command_failed_attempt'' command"

definition run_powershell_command :: "world \<Rightarrow> config \<Rightarrow> string \<Rightarrow> bool prog" where
  "run_powershell_command w cfg command =
     result_only (run_powershell_command_tries w cfg command)"

section \<open>Services Manager and Server Manager (vm\_automation.py)\<close>

text \<open>
  The outcome of a verified step that is retried (lines 592--611 and 684--702): without
  a verdict the step counts as done. \<open>before_retry\<close> is what the operation does before
  the next attempt.
\<close>

definition verified_or_retry :: "config \<Rightarrow> nat \<Rightarrow> unit prog \<Rightarrow> verdict option \<Rightarrow> ctl prog" where
  "verified_or_retry cfg attempt before_retry verification =
     (case verification of
        None \<Rightarrow> ret (Return True)
      | Some v \<Rightarrow>
          if verified v then ret (Return True)
          else if int attempt < max_retries cfg then bnd before_retry (\<lambda>_. ret Continue)
          else ret (Return False))"

definition services_attempt :: "world \<Rightarrow> config \<Rightarrow> nat \<Rightarrow> ctl prog" where
  "services_attempt w cfg attempt =
     bnd (seqn [click_vnc_canvas,
                raw w (KeyPress ''Alt+F4''),
                void (capture_screenshot w cfg
                        (''05_closed_server_manager_attempt'' @ str_nat attempt) False),
                log_action ''Open Run dialog'' ''Pressing Win+R'',
                click_vnc_canvas,
                raw w (KeyPress ''Meta+R''),
                void (capture_screenshot w cfg (''05_run_dialog_attempt'' @ str_nat attempt) False),
                log_action ''Launch services.msc'' ''Typing services.msc'',
                raw w (KeyType ''services.msc''),
                raw w (KeyPress ''Enter'')]) (\<lambda>_.
     bnd (capture_screenshot w cfg (''06_services_manager_attempt'' @ str_nat attempt) True)
       (\<lambda>(screenshot_path, verification).
     verified_or_retry cfg attempt (raw w (KeyPress ''Alt+F4'')) verification))"

definition open_services_manager_tries :: "world \<Rightarrow> config \<Rightarrow> (bool \<times> nat list) prog" where
  "open_services_manager_tries w cfg =
     for_attempts
       (\<lambda>attempt. catch (services_attempt w cfg attempt)
                         (on_attempt_failure w cfg ''06_services_failed_attempt'' attempt))
       (max_retries cfg) 1 []"

definition open_services_manager :: "world \<Rightarrow> config \<Rightarrow> bool prog" where
  "open_services_manager w cfg = result_only (open_services_manager_tries w cfg)"

definition server_manager_attempt :: "world \<Rightarrow> config \<Rightarrow> nat \<Rightarrow> ctl prog" where
  "server_manager_attempt w cfg attempt =
     bnd (seqn [log_action ''Verify Server Manager''
                  ''Checking if Server Manager is visible on desktop'',
                click_vnc_canvas]) (\<lambda>_.
     bnd (capture_screenshot w cfg (''08_server_manager_visible_attempt'' @ str_nat attempt) True)
       (\<lambda>(screenshot_path, verification).
     verified_or_retry cfg attempt (ret ()) verification))"

definition open_server_manager_tries :: "world \<Rightarrow> config \<Rightarrow> (bool \<times> nat list) prog" where
  "open_server_manager_tries w cfg =
     for_attempts
       (\<lambda>attempt. catch (server_manager_attempt w cfg attempt)
                         (on_attempt_failure w cfg ''08_server_manager_check_failed_attempt'' attempt))
       (max_retries cfg) 1 []"

definition open_server_manager :: "world \<Rightarrow> config \<Rightarrow> bool prog" where
  "open_server_manager w cfg = result_only (open_server_manager_tries w cfg)"



section \<open>Connecting and the login protocol (vm\_automation.py)\<close>

text \<open>\<^verbatim>\<open>connect_to_vm\<close>: any exception becomes a \<^verbatim>\<open>VMAutomationError\<close>.\<close>

definition connect_to_vm :: "world \<Rightarrow> config \<Rightarrow> string \<Rightarrow> bool prog" where
  "connect_to_vm w cfg novnc_url =
     catch
       (bnd (raw w (Goto novnc_url)) (\<lambda>_.
        bnd (capture_screenshot w cfg ''01_novnc_connected'' False) (\<lambda>_. ret True)))
       (\<lambda>e. throw (VMAutomationError (''Failed to connect to VM: '' @ str_exn e)))"

text \<open>\<^verbatim>\<open>wait_for_windows_desktop\<close>: a fixed wait and a screenshot.\<close>

definition wait_for_windows_desktop :: "world \<Rightarrow> config \<Rightarrow> bool prog" where
  "wait_for_windows_desktop w cfg =
     bnd (capture_screenshot w cfg ''02_windows_desktop'' False) (\<lambda>_. ret True)"

text \<open>
  One poll for the login screen (lines 175--190): the wake gesture on the first poll
  and on every poll whose number is a multiple of three, then the screenshot and the
  state check.
\<close>

definition login_screen_poll :: "world \<Rightarrow> config \<Rightarrow> nat \<Rightarrow> (string \<times> verdict option) prog" where
  "login_screen_poll w cfg attempts =
     bnd (if attempts = 1 \<or> attempts mod 3 = 0
          then seqn [log_action ''Send Ctrl+Alt+Del'' ''Bringing up login screen'',
                     send_ctrl_alt_del]
          else ret ()) (\<lambda>_.
     capture_screenshot w cfg (''03_login_screen_check_'' @ str_nat attempts) True)"

text \<open>
  The polling loop (lines 170--205). \<open>attempts\<close> is the number of polls made so far.
  The result is the path of the last screenshot when the login screen counts as
  ready (\<^verbatim>\<open>login_screen_ready = True\<close>), \<open>None\<close> when the polls are used up. A poll
  without a verdict counts as ready.
\<close>

function wait_for_login_screen ::
  "world \<Rightarrow> config \<Rightarrow> int \<Rightarrow> nat \<Rightarrow> (string option) prog" where
  "wait_for_login_screen w cfg max_attempts attempts s =
     (if int attempts < max_attempts then
        (case login_screen_poll w cfg (Suc attempts) s of
           (Inl e, s') \<Rightarrow> (Inl e, s')
         | (Inr (screenshot_path, verification), s') \<Rightarrow>
             (case verification of
                Some v \<Rightarrow>
                  if verified v then (Inr (Some screenshot_path), s')
                  else wait_for_login_screen w cfg max_attempts (Suc attempts) s'
              | None \<Rightarrow> (Inr (Some screenshot_path), s')))
      else (Inr None, s))"
  by pat_completeness auto
termination
  by (relation "measure (\<lambda>(w, cfg, max_attempts, attempts, s). nat (max_attempts - int attempts))")
     auto

declare wait_for_login_screen.simps [simp del]

text \<open>The field detection on a screenshot file, asked at the current time.\<close>

definition ask_login_fields :: "world \<Rightarrow> string \<Rightarrow> field_detection prog" where
  "ask_login_fields w path = (\<lambda>s. (Inr (detect_login_fields (detection w path (now s))), s))"


text \<open>The attempt to switch to another user (lines 251--301).\<close>

definition other_user_locations :: "(int \<times> int) list" where
  "other_user_locations = [(150, 1000), (200, 950), (150, 950), (200, 1020), (100, 1000)]"

definition switch_user :: "world \<Rightarrow> config \<Rightarrow> field_detection prog" where
  "switch_user w cfg =
     bnd (seqn ([raw w (KeyPress ''Escape''),
                 void (capture_screenshot w cfg ''03b_before_other_user_click'' False)] @
                map (\<lambda>(x, y). click_vnc_at_coordinates x y) other_user_locations)) (\<lambda>_.
     bnd (capture_screenshot w cfg ''03c_after_other_user_click'' False)
       (\<lambda>(screenshot_path_switch, verification).
     if llm_client cfg then ask_login_fields w screenshot_path_switch
     else ret \<lparr>has_username = True, has_password = True, displayed_username = None,
               fd_description = ''After switch: both fields''\<rparr>))"

text \<open>
  The check of the displayed username (lines 229--301): a match forces the
  password-only entry, a mismatch tries to switch users.
\<close>

definition cached_user :: "string \<Rightarrow> field_detection" where
  "cached_user displayed_user =
     \<lparr>has_username = False, has_password = True, displayed_username = Some displayed_user,
      fd_description = ''Cached user matches: '' @ displayed_user\<rparr>"

definition check_displayed_username ::
  "world \<Rightarrow> config \<Rightarrow> string \<Rightarrow> field_detection \<Rightarrow> field_detection prog" where
  "check_displayed_username w cfg username field_detection =
     (case displayed_username field_detection of
        None \<Rightarrow> ret field_detection
      | Some displayed_user \<Rightarrow>
          if displayed_user = [] then ret field_detection
          else if username_matches displayed_user username then ret (cached_user displayed_user)
          else switch_user w cfg)"

text \<open>Entering the credentials (lines 307--432).\<close>

definition enter_credentials :: "world \<Rightarrow> string \<Rightarrow> string \<Rightarrow> field_detection \<Rightarrow> unit prog" where
  "enter_credentials w username password field_detection =
     (if \<not> has_username field_detection \<and> has_password field_detection then
        seqn [log_action ''Enter password'' ''Typing password (username cached)'',
              click_vnc_canvas,
              click_vnc_canvas,
              click_vnc_at_coordinates 960 560,
              raw w (KeyPress ''Control+A''),
              raw w (KeyPress ''Backspace''),
              type_text_vnc w password]
      else
        seqn ([log_action ''Enter username'' (''Typing username: '' @ username)] @
              map (\<lambda>c. raw w (KeyType [c])) username @
              [raw w (KeyPress ''Tab''),
               raw w (KeyPress ''Control+A''),
               raw w (KeyPress ''Delete''),
               log_action ''Enter password'' ''Typing password'',
               type_text_vnc w password]))"




section \<open>Custom steps (vm\_automation.py, \<^verbatim>\<open>perform_custom_steps\<close>)\<close>

text \<open>A step result; the timestamp is left out.\<close>

record step_result =
  step_number :: nat
  step_description :: string
  success :: bool
  error :: "string option"
  screenshot :: "string option"








section \<open>The step orchestrator (main.py)\<close>






definition plain_step :: "nat \<Rightarrow> string \<Rightarrow> bool \<Rightarrow> step_result" where
  "plain_step n d ok =
     \<lparr>step_number = n, step_description = d, success = ok, error = None, screenshot = None\<rparr>"

text \<open>The loop over the PowerShell commands (lines 441--450), numbered from \<open>i\<close>.\<close>

fun run_ps_commands ::
  "world \<Rightarrow> config \<Rightarrow> nat \<Rightarrow> string list \<Rightarrow> step_result list \<Rightarrow> (step_result list) prog" where
  "run_ps_commands w cfg i [] steps = ret steps"
| "run_ps_commands w cfg i (ps_cmd # ps_commands) steps =
     bnd (run_powershell_interactive w cfg ps_cmd) (\<lambda>ps_success.
       run_ps_commands w cfg (Suc i) ps_commands
         (steps @ [plain_step (length steps + 1)
                     (''Execute PowerShell command '' @ str_nat i @ '': '' @ ps_cmd) ps_success]))"

text \<open>
  The engine the orchestrator builds: always with the oracle, and with the default
  retry cap, which the orchestrator does not pass.
\<close>

definition orchestrator_config :: config where
  "orchestrator_config = \<lparr>llm_client = True, max_retries = 2\<rparr>"

definition initial_vm_state :: vm_state where
  "initial_vm_state = \<lparr>screenshots = [], action_log = [], driver = []\<rparr>"





section \<open>A whole run (main.py, \<^verbatim>\<open>run_verification\<close>)\<close>











section \<open>Notions used to state the properties\<close>

text \<open>
  The phrases of the login verdict, grouped as the rule set names them: the benign
  phrases (the Shutdown Event Tracker dialog, the desktop with its taskbar) and the
  failure phrases (still on the login screen, wrong password, locked screen).
\<close>

definition benign_phrase :: "string \<Rightarrow> bool" where
  "benign_phrase d =
     (contains d ''SHUTDOWN EVENT TRACKER'' \<or> contains d ''SHUTDOWN'' \<or>
      (contains d ''DESKTOP'' \<and> contains d ''TASKBAR''))"

definition failure_phrase :: "string \<Rightarrow> bool" where
  "failure_phrase d =
     (contains d ''STILL ON LOGIN'' \<or> contains d ''SHOWING LOGIN'' \<or> contains d ''AT LOGIN SCREEN'' \<or>
      contains d ''INCORRECT PASSWORD'' \<or> contains d ''PASSWORD INCORRECT'' \<or>
      contains d ''WRONG PASSWORD'' \<or>
      (contains d ''LOCKED'' \<and> contains d ''SCREEN''))"

definition login_succeeds :: "verdict \<Rightarrow> bool" where
  "login_succeeds v = (login_verdict (Some v) = Inr True)"

definition login_raises :: "verdict \<Rightarrow> bool" where
  "login_raises v = (case login_verdict (Some v) of Inl e \<Rightarrow> True | Inr b \<Rightarrow> False)"

text \<open>A label on some line of a reply, and a reply none of whose lines carries a
  label of the field detection.\<close>

definition has_label :: "string list \<Rightarrow> string \<Rightarrow> bool" where
  "has_label lines label = list_ex (\<lambda>line. contains line label) lines"

definition detect_labels :: "string list" where
  "detect_labels =
     [''USERNAME_FIELD:'', ''USERNAME FIELD:'', ''PASSWORD_FIELD:'', ''PASSWORD FIELD:'',
      ''DISPLAYED_USERNAME:'', ''DISPLAYED USERNAME:'', ''DESCRIPTION:'']"

definition unlabelled :: "string \<Rightarrow> bool" where
  "unlabelled response =
     list_all (\<lambda>line. list_all (\<lambda>label. \<not> contains (upper line) label) detect_labels)
       (split_on newline response)"

text \<open>The displayed username \<^verbatim>\<open>CORP\Administrator\<close>.\<close>

definition corp_administrator :: string where
  "corp_administrator = ''CORP'' @ [backslash] @ ''Administrator''"

text \<open>
  A scripted environment for examples: nothing fails, every capture succeeds, the
  state check always gets the same reply and the field detection an empty one.
\<close>

definition scripted_world :: "string \<Rightarrow> world" where
  "scripted_world reply =
     \<lparr>fault = (\<lambda>t. None), shot_ok = (\<lambda>name t. True), vision = (\<lambda>name t. Some reply),
      detection = (\<lambda>path t. Some []), chat = (\<lambda>step t. Inl ''unavailable'')\<rparr>"

text \<open>
  The polls for the login screen: the name of the capture of poll \<open>k\<close>, the polls on
  which the wake gesture is due, what a poll adds to the trace and to the action log,
  an oracle that reports (or does not report) a login screen on poll \<open>k\<close> whenever it
  is asked, and the session after the polls \<open>a + 1\<close> to \<open>n\<close>.
\<close>

definition login_check_name :: "nat \<Rightarrow> string" where
  "login_check_name k = ''03_login_screen_check_'' @ str_nat k"

definition wake_poll :: "nat \<Rightarrow> bool" where
  "wake_poll k = (k = 1 \<or> k mod 3 = 0)"

definition poll_events :: "nat \<Rightarrow> event list" where
  "poll_events k = (if wake_poll k then [CtrlAltDel] else []) @ [Screenshot (login_check_name k)]"

definition poll_log :: "nat \<Rightarrow> (string \<times> string) list" where
  "poll_log k = (if wake_poll k then [(''Send Ctrl+Alt+Del'', ''Bringing up login screen'')] else [])"

definition poll_positive :: "world \<Rightarrow> nat \<Rightarrow> bool" where
  "poll_positive w k =
     (\<forall>t. shot_ok w (login_check_name k) t \<and>
          verified (verify_ui_state (vision w (login_check_name k) t)))"

definition poll_negative :: "world \<Rightarrow> nat \<Rightarrow> bool" where
  "poll_negative w k =
     (\<forall>t. shot_ok w (login_check_name k) t \<and>
          \<not> verified (verify_ui_state (vision w (login_check_name k) t)))"

definition after_polls :: "nat \<Rightarrow> nat \<Rightarrow> vm_state \<Rightarrow> vm_state" where
  "after_polls a n s =
     s\<lparr>screenshots := screenshots s @ map (\<lambda>k. login_check_name k @ ''.png'') [Suc a..<Suc n],
       action_log := action_log s @ concat (map poll_log [Suc a..<Suc n]),
       driver := driver s @ concat (map poll_events [Suc a..<Suc n])\<rparr>"

text \<open>An environment whose oracle reports the login screen on poll \<open>n\<close> only.\<close>

definition login_at_poll :: "nat \<Rightarrow> world" where
  "login_at_poll n =
     \<lparr>fault = (\<lambda>t. None), shot_ok = (\<lambda>name t. True),
      vision = (\<lambda>name t. Some (if name = login_check_name n then ''VERIFIED: yes''
                                 else ''VERIFIED: no'')),
      detection = (\<lambda>path t. Some []), chat = (\<lambda>step t. Inl ''unavailable'')\<rparr>"

text \<open>
  A program that, from every state, returns a value satisfying \<open>P\<close> and raises nothing;
  an environment without driver faults.
\<close>

definition yields :: "('s \<Rightarrow> (exn + 'a) \<times> 's) \<Rightarrow> ('a \<Rightarrow> bool) \<Rightarrow> bool" where
  "yields m P = (\<forall>s. \<exists>x s'. m s = (Inr x, s') \<and> P x)"

definition no_faults :: "world \<Rightarrow> bool" where
  "no_faults w = (\<forall>t. fault w t = None)"

text \<open>
  A retried operation that always returns, having run the attempts \<open>1, 2, ..., n\<close> for
  some \<open>n\<close> that is at most the retry cap.
\<close>

definition bounded_attempts :: "config \<Rightarrow> (bool \<times> nat list) prog \<Rightarrow> bool" where
  "bounded_attempts cfg m =
     (\<forall>s. \<exists>b tried s'. m s = (Inr (b, tried), s') \<and>
            tried = [1..<Suc (length tried)] \<and> int (length tried) \<le> max 0 (max_retries cfg))"

text \<open>
  What the oracle answers on the captures of the command protocol, whenever it is
  asked: the run dialog of attempt \<open>a\<close> is verified with no lock screen in sight, a lock
  screen is described on it, the output of attempt \<open>a\<close> is classified as an error.
\<close>

definition dialog_name :: "nat \<Rightarrow> string" where
  "dialog_name a = ''09_run_dialog_opened_attempt'' @ str_nat a"

definition run_dialog_opens :: "world \<Rightarrow> nat \<Rightarrow> bool" where
  "run_dialog_opens w a =
     (\<forall>t. shot_ok w (dialog_name a) t \<and>
          verified (verify_ui_state (vision w (dialog_name a) t)) \<and>
          \<not> lock_screen_seen (upper (description (verify_ui_state (vision w (dialog_name a) t)))))"

definition lock_screen_shown :: "world \<Rightarrow> nat \<Rightarrow> bool" where
  "lock_screen_shown w a =
     (\<forall>t. shot_ok w (dialog_name a) t \<and>
          lock_screen_seen (upper (description (verify_ui_state (vision w (dialog_name a) t)))))"

definition output_shows_error :: "world \<Rightarrow> string \<Rightarrow> nat \<Rightarrow> bool" where
  "output_shows_error w output_name a =
     (\<forall>t. shot_ok w (output_name @ str_nat a) t \<and>
          command_has_error (Some (verify_ui_state (vision w (output_name @ str_nat a) t))))"

text \<open>The steps recorded for commands that all failed, numbered from \<open>i\<close>, after \<open>n\<close>
  steps.\<close>

fun failed_steps :: "nat \<Rightarrow> nat \<Rightarrow> string list \<Rightarrow> step_result list" where
  "failed_steps i n [] = []"
| "failed_steps i n (c # cs) =
     plain_step (Suc n) (''Execute PowerShell command '' @ str_nat i @ '': '' @ c) False #
     failed_steps (Suc i) (Suc n) cs"

text \<open>Replies of a scripted oracle: an error in red text, and a lock screen.\<close>

definition red_text_reply :: string where
  "red_text_reply = ''VERIFIED: yes'' @ [newline] @ ''DESCRIPTION: RED TEXT''"

definition lock_screen_reply :: string where
  "lock_screen_reply =
     ''VERIFIED: no'' @ [newline] @ ''DESCRIPTION: Press Ctrl+Alt+Delete to unlock''"

text \<open>The session after an attempt that stopped at a lock screen on the run dialog of
  attempt \<open>a\<close>.\<close>

definition after_lock_screen :: "nat \<Rightarrow> vm_state \<Rightarrow> vm_state" where
  "after_lock_screen a s =
     s\<lparr>screenshots := screenshots s @ [dialog_name a @ ''.png''],
       action_log := action_log s @ [(''Open Run dialog'', ''Pressing Win+R'')],
       driver := driver s @ [ClickCanvas, KeyPress ''Meta+R'', Screenshot (dialog_name a)]\<rparr>"

text \<open>
  The screenshot list and the action log of \<open>s'\<close> extend those of \<open>s\<close>: every entry
  of \<open>s\<close> is still there, unchanged and at its place. A program is append-only when
  this holds of the state it leaves, whether it returns or raises.
\<close>

definition grows :: "vm_state \<Rightarrow> vm_state \<Rightarrow> bool" where
  "grows s s' = (prefix (screenshots s) (screenshots s') \<and> prefix (action_log s) (action_log s'))"

definition append_only :: "'a prog \<Rightarrow> bool" where
  "append_only m = (\<forall>s. grows s (snd (m s)))"


text \<open>
  A run up to the login: the screenshots taken on connecting and after the boot wait
  (each is in the list when its capture succeeded), and the engine's state when the
  login starts after a successful connection.
\<close>

definition boot_screenshots :: "world \<Rightarrow> string list" where
  "boot_screenshots w =
     (if shot_ok w ''01_novnc_connected'' 1 then [''01_novnc_connected.png''] else []) @
     (if shot_ok w ''02_windows_desktop'' 2 then [''02_windows_desktop.png''] else [])"

definition booted :: "world \<Rightarrow> string \<Rightarrow> vm_state" where
  "booted w novnc_url =
     \<lparr>screenshots = boot_screenshots w, action_log = [],
      driver = [Goto novnc_url, Screenshot ''01_novnc_connected'',
                Screenshot ''02_windows_desktop'']\<rparr>"







section \<open>Facts about the string operations\<close>

lemma startswith_prefix: "startswith s p \<longleftrightarrow> prefix p s"
  by (induction s p rule: startswith.induct) auto

lemma contains_sublist: "contains s sub \<longleftrightarrow> sublist sub s"
proof (induction s)
  case Nil
  show ?case by auto
next
  case (Cons c cs)
  show ?case
  proof (cases sub)
    case Nil
    then show ?thesis by simp
  next
    case (Cons x xs)
    then show ?thesis
      using Cons.IH by (simp add: startswith_prefix sublist_Cons_right)
  qed
qed

lemma contains_trans: "contains s a \<Longrightarrow> contains a b \<Longrightarrow> contains s b"
  unfolding contains_sublist by (rule sublist_order.order_trans[rotated])

lemma contains_append: "contains (p @ sub @ q) sub"
  unfolding contains_sublist by (rule sublist_appendI)

lemma contains_upper: "contains s sub \<Longrightarrow> contains (upper s) (upper sub)"
  unfolding contains_sublist sublist_def upper_def by (metis map_append)

lemma has_negationI: "neg \<in> set negation_phrases \<Longrightarrow> contains d neg \<Longrightarrow> has_negation d"
  unfolding has_negation_def list_ex_iff by blast

section \<open>Facts about the oracle adapter and the login decisions\<close>

lemma contains_colon: "contains line (lab @ [c]) \<Longrightarrow> after_first c line \<noteq> None"
proof -
  assume "contains line (lab @ [c])"
  then obtain p q where "line = p @ (lab @ [c]) @ q"
    unfolding contains_sublist sublist_def by blast
  then have "c \<in> set line" by simp
  then show ?thesis by (induction line) auto
qed

lemma verify_lines_some: "verify_lines ls r \<noteq> None"
proof (induction ls arbitrary: r)
  case Nil
  show ?case by simp
next
  case (Cons line ls)
  have c1: "contains line ''CONFIDENCE:'' \<Longrightarrow> after_first colon line \<noteq> None"
    using contains_colon[of line "''CONFIDENCE''" colon] by (simp add: colon_def)
  have c2: "contains line ''DESCRIPTION:'' \<Longrightarrow> after_first colon line \<noteq> None"
    using contains_colon[of line "''DESCRIPTION''" colon] by (simp add: colon_def)
  show ?case using Cons.IH c1 c2
    by (auto simp: Let_def split: option.splits)
qed

lemma verify_lines_verified:
  "\<not> has_label ls ''VERIFIED:'' \<Longrightarrow> verify_lines ls r = Some r' \<Longrightarrow> verified r' = verified r"
  by (induction ls arbitrary: r)
     (auto simp: has_label_def Let_def split: option.splits if_splits)

lemma verify_lines_confidence:
  "\<not> has_label ls ''CONFIDENCE:'' \<Longrightarrow> verify_lines ls r = Some r' \<Longrightarrow> confidence r' = confidence r"
  by (induction ls arbitrary: r)
     (auto simp: has_label_def Let_def split: option.splits if_splits)

lemma verify_lines_description:
  "\<not> has_label ls ''DESCRIPTION:'' \<Longrightarrow> verify_lines ls r = Some r' \<Longrightarrow> description r' = description r"
  by (induction ls arbitrary: r)
     (auto simp: has_label_def Let_def split: option.splits if_splits)

lemma verify_lines_raw:
  "verify_lines ls r = Some r' \<Longrightarrow> raw_response r' = raw_response r"
  by (induction ls arbitrary: r)
     (auto simp: Let_def split: option.splits if_splits)

lemma detect_line_unlabelled:
  "list_all (\<lambda>label. \<not> contains (upper line) label) detect_labels \<Longrightarrow> detect_line r line = r"
  by (simp add: detect_labels_def detect_line_def Let_def)

lemma foldl_detect_unlabelled:
  "list_all (\<lambda>line. list_all (\<lambda>label. \<not> contains (upper line) label) detect_labels) ls
     \<Longrightarrow> foldl detect_line r ls = r"
  by (induction ls arbitrary: r) (simp_all add: detect_line_unlabelled)

lemma corp_matches: "username_matches corp_administrator ''administrator''" by code_simp
lemma corp_matches2: "username_matches (''CORP'' @ [backslash, backslash] @ ''Administrator'') ''administrator''" by code_simp
lemma corp_nonempty: "corp_administrator \<noteq> []" by (simp add: corp_administrator_def)

section \<open>Facts about programs and the polling loop\<close>

lemma ret_apply: "ret x s = (Inr x, s)" by (simp add: ret_def)
lemma bnd_apply: "bnd m f s = (case m s of (Inl e, s') \<Rightarrow> (Inl e, s') | (Inr x, s') \<Rightarrow> f x s')"
  by (simp add: bnd_def)
lemma catch_apply: "catch m h s = (case m s of (Inl e, s') \<Rightarrow> h e s' | (Inr x, s') \<Rightarrow> (Inr x, s'))"
  by (simp add: catch_def)


lemma after_polls_step: "a < n \<Longrightarrow>
  after_polls (Suc a) n (after_polls a (Suc a) s) = after_polls a n s"
  by (cases "Suc a = n") (auto simp: after_polls_def upt_conv_Cons)

lemma poll_shot:
  assumes "llm_client cfg" and "\<forall>t. shot_ok w (login_check_name k) t"
  shows "\<exists>t. login_screen_poll w cfg k s =
           (Inr (login_check_name k @ ''.png'',
                 Some (verify_ui_state (vision w (login_check_name k) t))),
            after_polls (k - 1) k s) \<or> k = 0"
  using assms
  by (cases k)
     (auto simp: login_screen_poll_def bnd_apply ret_apply log_action_def send_ctrl_alt_del_def
        capture_screenshot_def issue_def now_def Let_def after_polls_def poll_log_def
        poll_events_def wake_poll_def login_check_name_def)

lemma poll_at:
  assumes "llm_client cfg" and "\<forall>t. shot_ok w (login_check_name (Suc a)) t"
  shows "\<exists>t. login_screen_poll w cfg (Suc a) s =
           (Inr (login_check_name (Suc a) @ ''.png'',
                 Some (verify_ui_state (vision w (login_check_name (Suc a)) t))),
            after_polls a (Suc a) s)"
  using poll_shot[OF assms, of s] by simp

lemma wait_until_positive:
  assumes "llm_client cfg" and "int n \<le> mx" and "a < n"
    and "\<forall>k. a < k \<and> k < n \<longrightarrow> poll_negative w k" and "poll_positive w n"
  shows "wait_for_login_screen w cfg mx a s =
           (Inr (Some (login_check_name n @ ''.png'')), after_polls a n s)"
  using assms
proof (induction "n - a" arbitrary: a s)
  case 0
  then show ?case by simp
next
  case (Suc d)
  have lt: "int a < mx" using Suc.prems by linarith
  show ?case
  proof (cases "Suc a = n")
    case True
    have ok: "\<forall>t. shot_ok w (login_check_name (Suc a)) t"
      using Suc.prems(5) True by (simp add: poll_positive_def)
    obtain t where poll: "login_screen_poll w cfg (Suc a) s =
           (Inr (login_check_name (Suc a) @ ''.png'',
                 Some (verify_ui_state (vision w (login_check_name (Suc a)) t))),
            after_polls a (Suc a) s)"
      using poll_at[OF Suc.prems(1) ok, of s] by blast
    have v: "verified (verify_ui_state (vision w (login_check_name (Suc a)) t))"
      using Suc.prems(5) True by (simp add: poll_positive_def)
    show ?thesis
      using lt poll v True by (simp add: wait_for_login_screen.simps[of w cfg mx a s])
  next
    case False
    then have lt2: "Suc a < n" using Suc.prems(3) by simp
    have negk: "poll_negative w (Suc a)" using Suc.prems(4) lt2 by simp
    have ok: "\<forall>t. shot_ok w (login_check_name (Suc a)) t"
      using negk by (simp add: poll_negative_def)
    obtain t where poll: "login_screen_poll w cfg (Suc a) s =
           (Inr (login_check_name (Suc a) @ ''.png'',
                 Some (verify_ui_state (vision w (login_check_name (Suc a)) t))),
            after_polls a (Suc a) s)"
      using poll_at[OF Suc.prems(1) ok, of s] by blast
    have v: "\<not> verified (verify_ui_state (vision w (login_check_name (Suc a)) t))"
      using negk by (simp add: poll_negative_def)
    have d: "d = n - Suc a" using Suc.hyps(2) by simp
    have neg': "\<forall>k. Suc a < k \<and> k < n \<longrightarrow> poll_negative w k"
      using Suc.prems(4) by simp
    have ih: "wait_for_login_screen w cfg mx (Suc a) (after_polls a (Suc a) s) =
           (Inr (Some (login_check_name n @ ''.png'')),
            after_polls (Suc a) n (after_polls a (Suc a) s))"
      by (rule Suc.hyps(1)[OF d Suc.prems(1) Suc.prems(2) lt2 neg' Suc.prems(5)])
    show ?thesis
      using lt poll v ih after_polls_step[OF Suc.prems(3), of s]
      by (simp add: wait_for_login_screen.simps[of w cfg mx a s])
  qed
qed


lemma verified_yes: "verified (verify_ui_state (Some ''VERIFIED: yes''))" by code_simp
lemma verified_no: "\<not> verified (verify_ui_state (Some ''VERIFIED: no''))" by code_simp

lemma upt_1_5: "[Suc 0..<5] = [Suc 0, 2, 3, 4]" by code_simp

section \<open>Programs that return\<close>

lemma yieldsD: "yields m P \<Longrightarrow> \<exists>x s'. m s = (Inr x, s') \<and> P x"
  unfolding yields_def by blast

lemma yields_ret: "P x \<Longrightarrow> yields (ret x) P"
  by (simp add: yields_def ret_def)

lemma yields_weaken: "yields m P \<Longrightarrow> (\<And>x. P x \<Longrightarrow> Q x) \<Longrightarrow> yields m Q"
  unfolding yields_def by blast

lemma yields_bnd:
  assumes m: "yields m Q" and f: "\<And>x. Q x \<Longrightarrow> yields (f x) P"
  shows "yields (bnd m f) P"
  unfolding yields_def
proof
  fix s
  obtain x s1 where ms: "m s = (Inr x, s1)" and q: "Q x" using yieldsD[OF m, of s] by blast
  obtain y s2 where fs: "f x s1 = (Inr y, s2)" and p: "P y" using yieldsD[OF f[OF q], of s1] by blast
  show "\<exists>y s'. bnd m f s = (Inr y, s') \<and> P y"
    using ms fs p by (simp add: bnd_def)
qed

lemma yields_catch: "yields m P \<Longrightarrow> yields (catch m h) P"
  unfolding yields_def
proof
  fix s
  assume a: "\<forall>s. \<exists>x s'. m s = (Inr x, s') \<and> P x"
  then obtain x s1 where ms: "m s = (Inr x, s1)" and p: "P x" by blast
  show "\<exists>y s'. catch m h s = (Inr y, s') \<and> P y"
    using ms p by (simp add: catch_def)
qed

lemma yields_catch_total:
  assumes "\<And>e. yields (h e) (\<lambda>_. True)"
  shows "yields (catch m h) (\<lambda>_. True)"
  unfolding yields_def
proof
  fix s
  obtain r s1 where ms: "m s = (r, s1)" by (cases "m s")
  show "\<exists>y s'. catch m h s = (Inr y, s') \<and> True"
  proof (cases r)
    case (Inr x)
    then show ?thesis using ms by (simp add: catch_def)
  next
    case (Inl e)
    obtain y s2 where "h e s1 = (Inr y, s2)" using yieldsD[OF assms, of e s1] by blast
    then show ?thesis using ms Inl by (simp add: catch_def)
  qed
qed

lemma yields_void: "yields m (\<lambda>_. True) \<Longrightarrow> yields (void m) (\<lambda>_. True)"
  unfolding void_def by (rule yields_bnd[where Q="\<lambda>_. True"]) (simp_all add: yields_ret)

lemma yields_seqn: "(\<And>m. m \<in> set ms \<Longrightarrow> yields m (\<lambda>_. True)) \<Longrightarrow> yields (seqn ms) (\<lambda>_. True)"
proof (induction ms)
  case Nil
  show ?case by (simp add: yields_ret)
next
  case (Cons m ms)
  have a: "yields m (\<lambda>_. True)" using Cons.prems by simp
  have b: "yields (seqn ms) (\<lambda>_. True)" using Cons.IH Cons.prems by simp
  show ?case using a b by (simp add: yields_bnd[where Q="\<lambda>_. True"])
qed

lemma yields_log_action: "yields (log_action a d) (\<lambda>_. True)"
  by (simp add: yields_def log_action_def)

lemma yields_click_canvas: "yields click_vnc_canvas (\<lambda>_. True)"
  by (simp add: yields_def click_vnc_canvas_def)

lemma yields_click_at: "yields (click_vnc_at_coordinates x y) (\<lambda>_. True)"
  by (simp add: yields_def click_vnc_at_coordinates_def)

lemma yields_send_cad: "yields send_ctrl_alt_del (\<lambda>_. True)"
  by (simp add: yields_def send_ctrl_alt_del_def)

lemma yields_raw: "no_faults w \<Longrightarrow> yields (raw w ev) (\<lambda>_. True)"
  by (simp add: yields_def raw_def no_faults_def)

lemma yields_type_char: "yields (type_char_vnc w c) (\<lambda>_. True)"
  unfolding type_char_vnc_def by (rule yields_catch_total) (simp add: yields_ret)

lemma yields_type_text: "yields (type_text_vnc w text) (\<lambda>_. True)"
  unfolding type_text_vnc_def by (rule yields_seqn) (auto simp: yields_type_char)

lemma yields_capture: "yields (capture_screenshot w cfg name v) (\<lambda>_. True)"
  by (simp add: yields_def capture_screenshot_def Let_def)

lemma yields_capture_verdict:
  assumes "llm_client cfg" and "\<forall>t. shot_ok w name t"
  shows "yields (capture_screenshot w cfg name True)
           (\<lambda>r. \<exists>t. r = (name @ ''.png'', Some (verify_ui_state (vision w name t))))"
  using assms by (auto simp add: yields_def capture_screenshot_def Let_def)

lemma yields_on_attempt_failure: "yields (on_attempt_failure w cfg name attempt e) (\<lambda>_. True)"
  unfolding on_attempt_failure_def
  by (rule yields_bnd[OF yields_capture]) (simp add: yields_ret)

section \<open>The retry loop\<close>

lemma for_attempts_range:
  assumes body: "\<forall>a. yields (body a) (\<lambda>_. True)"
  shows "\<exists>b n s'. for_attempts body mx a tried s = (Inr (b, tried @ [a..<a + n]), s') \<and>
           (n = 0 \<or> int (a + n) \<le> mx + 1)"
proof (induction "nat (mx + 1 - int a)" arbitrary: a tried s)
  case 0
  then have "\<not> int a \<le> mx" by linarith
  then have "for_attempts body mx a tried s = (Inr (False, tried @ [a..<a + 0]), s)"
    by (simp add: for_attempts.simps[of body mx a tried s])
  then show ?case by blast
next
  case (Suc d)
  have le: "int a \<le> mx" using Suc.hyps(2) by linarith
  have ya: "yields (body a) (\<lambda>_. True)" using body by simp
  obtain c s1 where b1: "body a s = (Inr c, s1)" using yieldsD[OF ya, of s] by blast
  show ?case
  proof (cases c)
    case (Return b)
    have "for_attempts body mx a tried s = (Inr (b, tried @ [a..<a + 1]), s1)"
      using le b1 Return by (simp add: for_attempts.simps[of body mx a tried s])
    moreover have "int (a + 1) \<le> mx + 1" using le by simp
    ultimately show ?thesis by blast
  next
    case Continue
    have d: "d = nat (mx + 1 - int (Suc a))" using Suc.hyps(2) by linarith
    obtain b n s' where ih:
      "for_attempts body mx (Suc a) (tried @ [a]) s1 =
         (Inr (b, (tried @ [a]) @ [Suc a..<Suc a + n]), s')"
      and bound: "n = 0 \<or> int (Suc a + n) \<le> mx + 1"
      using Suc.hyps(1)[OF d, of "tried @ [a]" s1] by blast
    have eq: "(tried @ [a]) @ [Suc a..<Suc a + n] = tried @ [a..<a + Suc n]"
      by (simp add: upt_conv_Cons)
    have "for_attempts body mx a tried s = (Inr (b, tried @ [a..<a + Suc n]), s')"
      using le b1 Continue ih eq by (simp add: for_attempts.simps[of body mx a tried s])
    moreover have "int (a + Suc n) \<le> mx + 1" using bound le by auto
    ultimately show ?thesis by blast
  qed
qed

lemma for_attempts_bounded:
  assumes body: "\<forall>a. yields (body a) (\<lambda>_. True)"
  shows "bounded_attempts cfg (for_attempts body (max_retries cfg) 1 [])"
  unfolding bounded_attempts_def
proof
  fix s
  obtain b n s' where r: "for_attempts body (max_retries cfg) 1 [] s = (Inr (b, [] @ [1..<1 + n]), s')"
    and bound: "n = 0 \<or> int (1 + n) \<le> max_retries cfg + 1"
    using for_attempts_range[OF body, where mx="max_retries cfg" and a=1 and tried="[]" and s=s]
    by blast
  have len: "length [1..<1 + n] = n" by simp
  have "int (length [1..<1 + n]) \<le> max 0 (max_retries cfg)" using bound by auto
  moreover have "[1..<1 + n] = [1..<Suc (length [1..<1 + n])]" by simp
  ultimately show "\<exists>b tried s'. for_attempts body (max_retries cfg) 1 [] s = (Inr (b, tried), s') \<and>
            tried = [1..<Suc (length tried)] \<and> int (length tried) \<le> max 0 (max_retries cfg)"
    using r by (metis append_Nil)
qed

lemma attempt_with_handler:
  "yields (catch m (on_attempt_failure w cfg name attempt)) (\<lambda>_. True)"
  by (rule yields_catch_total) (rule yields_on_attempt_failure)

section \<open>Attempts of the command protocol\<close>

lemma yields_bnd_capture:
  assumes "llm_client cfg" and "\<forall>t. shot_ok w name t"
    and "\<And>t. yields (f (name @ ''.png'', Some (verify_ui_state (vision w name t)))) P"
  shows "yields (bnd (capture_screenshot w cfg name True) f) P"
proof (rule yields_bnd[OF yields_capture_verdict[OF assms(1) assms(2)]])
  fix x
  assume "\<exists>t. x = (name @ ''.png'', Some (verify_ui_state (vision w name t)))"
  then obtain t where "x = (name @ ''.png'', Some (verify_ui_state (vision w name t)))" by blast
  then show "yields (f x) P" using assms(3)[of t] by simp
qed

lemma attempt_error:
  assumes llm: "llm_client cfg" and nf: "no_faults w"
    and dlg: "run_dialog_opens w a" and err: "output_shows_error w output_name a"
  shows "yields (powershell_attempt w cfg output_name command a)
           (\<lambda>c. c = (if int a < max_retries cfg then Continue else Return False))"
proof -
  let ?P = "\<lambda>c. c = (if int a < max_retries cfg then Continue else Return False)"
  have ok1: "\<forall>t. shot_ok w (''09_run_dialog_opened_attempt'' @ str_nat a) t"
    using dlg unfolding run_dialog_opens_def dialog_name_def by blast
  have ok2: "\<forall>t. shot_ok w (output_name @ str_nat a) t"
    using err unfolding output_shows_error_def by blast
  have pre: "yields (seqn [log_action ''Open Run dialog'' ''Pressing Win+R'',
                click_vnc_canvas, raw w (KeyPress ''Meta+R'')]) (\<lambda>_. True)"
    by (rule yields_seqn)
       (auto simp: yields_log_action yields_click_canvas yields_raw[OF nf])
  have mid: "yields (seqn [raw w (KeyType ''cmd.exe''),
                    void (capture_screenshot w cfg
                            (''09_run_dialog_typed_cmd_attempt'' @ str_nat a) False),
                    raw w (KeyPress ''Enter''),
                    void (capture_screenshot w cfg
                            (''09_cmd_window_opened_attempt'' @ str_nat a) False),
                    log_action ''Launch PowerShell from cmd'' ''Typing powershell.exe in cmd'',
                    raw w (KeyType ''powershell.exe''),
                    raw w (KeyPress ''Enter''),
                    void (capture_screenshot w cfg
                            (''09_powershell_prompt_ready_attempt'' @ str_nat a) True),
                    log_action (''Execute command: '' @ command) ''Typing command in PowerShell'',
                    type_text_vnc w command,
                    raw w (KeyPress ''Enter'')]) (\<lambda>_. True)"
    by (rule yields_seqn)
       (auto simp: yields_log_action yields_raw[OF nf] yields_type_text
          intro: yields_void yields_capture)
  have fin: "\<And>c. yields (bnd (raw w (KeyPress ''Alt+F4'')) (\<lambda>_. ret c)) (\<lambda>x. x = c)"
    by (rule yields_bnd[OF yields_raw[OF nf]]) (simp add: yields_ret)
  have tail: "\<And>t. yields
      (if command_has_error (Some (verify_ui_state (vision w (output_name @ str_nat a) t))) then
           (if int a < max_retries cfg
            then bnd (raw w (KeyPress ''Alt+F4'')) (\<lambda>_. ret Continue)
            else bnd (raw w (KeyPress ''Alt+F4'')) (\<lambda>_. ret (Return False)))
         else bnd (raw w (KeyPress ''Alt+F4'')) (\<lambda>_. ret (Return True))) ?P"
  proof -
    fix t
    have e: "command_has_error (Some (verify_ui_state (vision w (output_name @ str_nat a) t)))"
      using err unfolding output_shows_error_def by blast
    show "yields
      (if command_has_error (Some (verify_ui_state (vision w (output_name @ str_nat a) t))) then
           (if int a < max_retries cfg
            then bnd (raw w (KeyPress ''Alt+F4'')) (\<lambda>_. ret Continue)
            else bnd (raw w (KeyPress ''Alt+F4'')) (\<lambda>_. ret (Return False)))
         else bnd (raw w (KeyPress ''Alt+F4'')) (\<lambda>_. ret (Return True))) ?P"
      by (cases "int a < max_retries cfg") (simp_all add: e fin)
  qed
  have chk: "\<And>t. run_dialog_check cfg a
      (Some (verify_ui_state (vision w (''09_run_dialog_opened_attempt'' @ str_nat a) t))) = None"
    using dlg unfolding run_dialog_opens_def dialog_name_def run_dialog_check_def Let_def
    by simp
  show ?thesis
    unfolding powershell_attempt_def
    apply (rule yields_bnd[OF pre])
    apply (rule yields_bnd_capture[OF llm ok1])
    apply (simp only: prod.case chk option.case)
    apply (rule yields_bnd[OF mid])
    apply (rule yields_bnd_capture[OF llm ok2])
    apply (simp only: prod.case)
    apply (rule tail)
    done
qed

lemma attempt_lock:
  assumes llm: "llm_client cfg" and nf: "no_faults w" and lock: "lock_screen_shown w a"
  shows "powershell_attempt w cfg output_name command a s =
           (Inr (Return False),
            s\<lparr>screenshots := screenshots s @ [dialog_name a @ ''.png''],
              action_log := action_log s @ [(''Open Run dialog'', ''Pressing Win+R'')],
              driver := driver s @ [ClickCanvas, KeyPress ''Meta+R'', Screenshot (dialog_name a)]\<rparr>)"
  using assms
  by (simp add: powershell_attempt_def bnd_apply ret_apply log_action_def click_vnc_canvas_def
        raw_def capture_screenshot_def issue_def now_def Let_def run_dialog_check_def
        no_faults_def lock_screen_shown_def dialog_name_def)

lemma powershell_always_error:
  assumes llm: "llm_client cfg" and mr: "max_retries cfg = 2" and nf: "no_faults w"
    and dlg: "\<forall>a. run_dialog_opens w a" and err: "\<forall>a. output_shows_error w output_name a"
  shows "\<exists>s'. powershell_tries w cfg output_name failed_name command s = (Inr (False, [1, 2]), s')"
proof -
  let ?body = "\<lambda>attempt. catch (powershell_attempt w cfg output_name command attempt)
                         (on_attempt_failure w cfg failed_name attempt)"
  have y: "\<And>a. yields (?body a) (\<lambda>c. c = (if int a < max_retries cfg then Continue else Return False))"
    using attempt_error[OF llm nf] dlg err by (simp add: yields_catch)
  obtain s1 where b1: "?body 1 s = (Inr Continue, s1)"
    using yieldsD[OF y[of 1], of s] mr by auto
  obtain s2 where b2: "?body 2 s1 = (Inr (Return False), s2)"
    using yieldsD[OF y[of 2], of s1] mr by auto
  have two: "for_attempts ?body 2 2 [1] s1 = (Inr (False, [1, 2]), s2)"
    using b2 by (simp add: for_attempts.simps[of ?body 2 2 "[1]" s1] del: One_nat_def)
  have "for_attempts ?body 2 1 [] s = (Inr (False, [1, 2]), s2)"
    using b1 two by (simp add: for_attempts.simps[of ?body 2 1 "[]" s] numeral_2_eq_2 del: One_nat_def)
  then show ?thesis unfolding powershell_tries_def mr by blast
qed

lemma powershell_lock_screen:
  assumes llm: "llm_client cfg" and nf: "no_faults w" and le: "int a \<le> max_retries cfg"
    and lock: "lock_screen_shown w a"
  shows "for_attempts
           (\<lambda>attempt. catch (powershell_attempt w cfg output_name command attempt)
                         (on_attempt_failure w cfg failed_name attempt))
           (max_retries cfg) a tried s =
         (Inr (False, tried @ [a]),
          s\<lparr>screenshots := screenshots s @ [dialog_name a @ ''.png''],
            action_log := action_log s @ [(''Open Run dialog'', ''Pressing Win+R'')],
            driver := driver s @ [ClickCanvas, KeyPress ''Meta+R'', Screenshot (dialog_name a)]\<rparr>)"
  using le attempt_lock[OF llm nf lock, of output_name command s]
  by (simp add: for_attempts.simps[of _ "max_retries cfg" a tried s] catch_apply)

lemma result_only_apply: "m s = (Inr (b, tried), s') \<Longrightarrow> result_only m s = (Inr b, s')"
  by (simp add: result_only_def bnd_apply ret_apply)

lemma run_ps_commands_all_fail:
  assumes "\<forall>cmd s. \<exists>s'. run_powershell_interactive w cfg cmd s = (Inr False, s')"
  shows "\<exists>s'. run_ps_commands w cfg i cmds steps s =
            (Inr (steps @ failed_steps i (length steps) cmds), s')"
proof (induction cmds arbitrary: i steps s)
  case Nil
  show ?case by (simp add: ret_apply)
next
  case (Cons c cs)
  obtain s1 where r: "run_powershell_interactive w cfg c s = (Inr False, s1)"
    using assms by blast
  obtain s2 where ih: "run_ps_commands w cfg (Suc i) cs
        (steps @ [plain_step (length steps + 1)
                    (''Execute PowerShell command '' @ str_nat i @ '': '' @ c) False]) s1 =
      (Inr ((steps @ [plain_step (length steps + 1)
                    (''Execute PowerShell command '' @ str_nat i @ '': '' @ c) False]) @
            failed_steps (Suc i) (length (steps @ [plain_step (length steps + 1)
                    (''Execute PowerShell command '' @ str_nat i @ '': '' @ c) False])) cs), s2)"
    using Cons.IH by blast
  show ?case using r ih by (simp add: bnd_apply)
qed

lemma red_text_facts:
  "verified (verify_ui_state (Some red_text_reply))"
  "\<not> lock_screen_seen (upper (description (verify_ui_state (Some red_text_reply))))"
  "command_has_error (Some (verify_ui_state (Some red_text_reply)))"
  by code_simp+

lemma lock_screen_facts:
  "lock_screen_seen (upper (description (verify_ui_state (Some lock_screen_reply))))"
  by code_simp

lemma scripted_world_simps:
  "no_faults (scripted_world reply)"
  "shot_ok (scripted_world reply) name t"
  "vision (scripted_world reply) name t = Some reply"
  by (simp_all add: scripted_world_def no_faults_def)

lemma red_world_dialog: "run_dialog_opens (scripted_world red_text_reply) a"
  by (simp add: run_dialog_opens_def scripted_world_simps red_text_facts)

lemma red_world_error: "output_shows_error (scripted_world red_text_reply) output_name a"
  by (simp add: output_shows_error_def scripted_world_simps red_text_facts)

lemma lock_world_lock: "lock_screen_shown (scripted_world lock_screen_reply) a"
  by (simp add: lock_screen_shown_def scripted_world_simps lock_screen_facts)

lemma orchestrator_config_simps:
  "llm_client orchestrator_config" "max_retries orchestrator_config = 2"
  by (simp_all add: orchestrator_config_def)

lemma run_ps_commands_lock_screen:
  assumes "\<forall>cmd s. run_powershell_interactive w cfg cmd s = (Inr False, after_lock_screen 1 s)"
  shows "run_ps_commands w cfg i cmds steps s =
            (Inr (steps @ failed_steps i (length steps) cmds),
             (after_lock_screen 1 ^^ length cmds) s)"
proof (induction cmds arbitrary: i steps s)
  case Nil
  show ?case by (simp add: ret_apply)
next
  case (Cons c cs)
  show ?case
    using assms Cons.IH by (simp add: bnd_apply funpow_swap1)
qed

section \<open>Append-only programs\<close>





















lemma append_only_ctl:
  "append_only a \<Longrightarrow> (\<And>b. append_only (f b))
     \<Longrightarrow> append_only (case c of Return b \<Rightarrow> f b | Continue \<Rightarrow> a)"
  by (cases c) simp_all








































section \<open>A run whose login screen never appears\<close>

lemma connect_ok:
  assumes "fault w 0 = None"
  shows "connect_to_vm w cfg url initial_vm_state =
           (Inr True,
            \<lparr>screenshots = (if shot_ok w ''01_novnc_connected'' 1
                             then [''01_novnc_connected.png''] else []),
             action_log = [], driver = [Goto url, Screenshot ''01_novnc_connected'']\<rparr>)"
  using assms
  by (simp add: connect_to_vm_def catch_apply bnd_apply ret_apply raw_def now_def issue_def
        capture_screenshot_def Let_def initial_vm_state_def)

lemma boot_ok:
  assumes "fault w 0 = None"
  shows "bnd (connect_to_vm w cfg url) (\<lambda>_. wait_for_windows_desktop w cfg) initial_vm_state =
           (Inr True, booted w url)"
  using connect_ok[OF assms, of cfg url]
  by (simp add: bnd_apply ret_apply wait_for_windows_desktop_def capture_screenshot_def
        now_def issue_def Let_def booted_def boot_screenshots_def numeral_2_eq_2)
















section \<open>Claims\<close>

text \<open>
  C6. For every oracle description of command output, the negation phrases (``no error'',
  ``no errors'', ``without error'', ``no red'', ``without red'', matched on the
  upper-cased description and so case-insensitively) are looked for before the error
  indicators: if the description contains one of them, \<open>command_has_error\<close> is false,
  whatever error indicator the description also contains. In particular a description
  containing ``no errors detected'' gives \<open>command_has_error = False\<close>.
\<close>

theorem C6_negation_suppresses_error:
  "(p \<in> {''no error'', ''no errors'', ''without error'', ''no red'', ''without red''} \<and>
      contains (upper (description v)) (upper p)
      \<longrightarrow> \<not> command_has_error (Some v)) \<and>
   (contains (upper (description v)) (upper ''no errors detected'')
      \<longrightarrow> \<not> command_has_error (Some v))"
proof (intro conjI impI)
  assume h: "p \<in> {''no error'', ''no errors'', ''without error'', ''no red'', ''without red''} \<and>
      contains (upper (description v)) (upper p)"
  then have "upper p \<in> set negation_phrases"
    unfolding negation_phrases_def by (elim conjE insertE emptyE; hypsubst; code_simp)
  with h have "has_negation (upper (description v))"
    by (blast intro: has_negationI)
  then show "\<not> command_has_error (Some v)"
    by (simp add: command_has_error_def)
next
  assume h: "contains (upper (description v)) (upper ''no errors detected'')"
  have "contains (upper ''no errors detected'') ''NO ERROR''"
    by code_simp
  with h have "contains (upper (description v)) ''NO ERROR''"
    by (rule contains_trans)
  then have "has_negation (upper (description v))"
    by (rule has_negationI[rotated]) (simp add: negation_phrases_def)
  then show "\<not> command_has_error (Some v)"
    by (simp add: command_has_error_def)
qed

theorem C6_negation_suppresses_error_witness:
  "contains (upper ''No errors detected, although RED TEXT is mentioned'') (upper ''no errors'') \<and>
   contains (upper ''No errors detected, although RED TEXT is mentioned'') ''RED TEXT'' \<and>
   \<not> command_has_error (Some \<lparr>verified = False, confidence = ''low'',
        description = ''No errors detected, although RED TEXT is mentioned'',
        raw_response = ''''\<rparr>)"
proof -
  have a: "contains (upper ''No errors detected, although RED TEXT is mentioned'') (upper ''no errors'')"
    by code_simp
  have b: "contains (upper ''No errors detected, although RED TEXT is mentioned'') ''RED TEXT''"
    by code_simp
  show ?thesis
    using a b C6_negation_suppresses_error[of "''no errors''"
        "\<lparr>verified = False, confidence = ''low'',
          description = ''No errors detected, although RED TEXT is mentioned'',
          raw_response = ''''\<rparr>"]
    by simp
qed

text \<open>
  C2. After the credentials are submitted, the verdict on the login is decided in this
  order and no other: a verified flag means success; otherwise a benign phrase in the
  description means success; otherwise a failure phrase means failure; otherwise low
  confidence or an empty description means success; in every remaining case the login
  fails. A failed login raises \<^verbatim>\<open>VMAutomationError\<close>.
\<close>

theorem C2_login_verdict_priority:
  "login_succeeds v =
     (if verified v then True
      else if benign_phrase (upper (description v)) then True
      else if failure_phrase (upper (description v)) then False
      else if confidence v = ''low'' \<or> upper (description v) = [] then True
      else False) \<and>
   login_raises v = (\<not> login_succeeds v)"
  by (auto simp add: login_succeeds_def login_raises_def login_verdict_def benign_phrase_def
        failure_phrase_def Let_def)

theorem C2_login_verdict_priority_witness:
  "\<not> login_succeeds \<lparr>verified = False, confidence = ''high'',
        description = ''Incorrect password'', raw_response = []\<rparr> \<and>
   login_raises \<lparr>verified = False, confidence = ''high'',
        description = ''Incorrect password'', raw_response = []\<rparr>"
proof -
  have a: "\<not> benign_phrase (upper ''Incorrect password'')" by code_simp
  have b: "failure_phrase (upper ''Incorrect password'')" by code_simp
  show ?thesis
    using a b C2_login_verdict_priority[of "\<lparr>verified = False, confidence = ''high'',
        description = ''Incorrect password'', raw_response = []\<rparr>"]
    by simp
qed

text \<open>
  C5, as amended. A field whose label stands on no line of the reply is at its
  default: without a \<^verbatim>\<open>VERIFIED:\<close> line the result is not verified, without a
  \<^verbatim>\<open>CONFIDENCE:\<close> line the confidence is low, without a \<^verbatim>\<open>DESCRIPTION:\<close>
  line the description is the raw reply; a reply with none of the three gives exactly
  the default verdict. Nothing is said of the fields whose labels are present: by the
  order of the tests a line is read for the first label it contains, so a present
  field may be parsed, or stay at its default. A reply without any label of
  the field detection makes \<^verbatim>\<open>detect_login_fields\<close> return no username field, no
  password field, no displayed username and the first 200 characters of the reply;
  \<^verbatim>\<open>login_windows\<close> then takes the password-only default. A reply without content
  gives the error verdict and, for the field detection, both fields. Nothing raises:
  both functions return a result for every reply.
\<close>

theorem C5_omitted_fields_keep_defaults:
  "(\<not> has_label (split_on newline (upper r)) ''VERIFIED:''
      \<longrightarrow> \<not> verified (verify_ui_state (Some r))) \<and>
   (\<not> has_label (split_on newline (upper r)) ''CONFIDENCE:''
      \<longrightarrow> confidence (verify_ui_state (Some r)) = ''low'') \<and>
   (\<not> has_label (split_on newline (upper r)) ''DESCRIPTION:''
      \<longrightarrow> description (verify_ui_state (Some r)) = r) \<and>
   (\<not> has_label (split_on newline (upper r)) ''VERIFIED:'' \<and>
    \<not> has_label (split_on newline (upper r)) ''CONFIDENCE:'' \<and>
    \<not> has_label (split_on newline (upper r)) ''DESCRIPTION:''
      \<longrightarrow> verify_ui_state (Some r) =
            \<lparr>verified = False, confidence = ''low'', description = r, raw_response = r\<rparr>) \<and>
   (unlabelled r
      \<longrightarrow> detect_login_fields (Some r) =
            \<lparr>has_username = False, has_password = False, displayed_username = None,
             fd_description = take 200 r\<rparr> \<and>
          initial_field_detection True (Some r) = password_only ''Fallback: password only'') \<and>
   \<not> verified (verify_ui_state None) \<and> confidence (verify_ui_state None) = ''error'' \<and>
   has_username (detect_login_fields None) \<and> has_password (detect_login_fields None)"
proof -
  let ?ls = "split_on newline (upper r)"
  let ?init = "\<lparr>verified = False, confidence = ''low'', description = r, raw_response = r\<rparr>"
  obtain res where res: "verify_lines ?ls ?init = Some res"
    using verify_lines_some[of ?ls ?init] by blast
  then have v: "verify_ui_state (Some r) = res"
    by (simp add: verify_ui_state_def)
  have raw: "raw_response res = r"
    using verify_lines_raw[OF res] by simp
  have a: "\<not> has_label ?ls ''VERIFIED:'' \<Longrightarrow> \<not> verified res"
    using verify_lines_verified[OF _ res] by simp
  have b: "\<not> has_label ?ls ''CONFIDENCE:'' \<Longrightarrow> confidence res = ''low''"
    using verify_lines_confidence[OF _ res] by simp
  have c: "\<not> has_label ?ls ''DESCRIPTION:'' \<Longrightarrow> description res = r"
    using verify_lines_description[OF _ res] by simp
  have d: "unlabelled r \<Longrightarrow> detect_login_fields (Some r) =
            \<lparr>has_username = False, has_password = False, displayed_username = None,
             fd_description = take 200 r\<rparr>"
    by (simp add: unlabelled_def detect_login_fields_def foldl_detect_unlabelled Let_def)
  have e: "unlabelled r \<Longrightarrow>
      initial_field_detection True (Some r) = password_only ''Fallback: password only''"
    using d by (simp add: initial_field_detection_def Let_def)
  have f: "\<not> verified (verify_ui_state None) \<and> confidence (verify_ui_state None) = ''error''"
    by (simp add: verify_ui_state_def verify_error_def)
  have g: "has_username (detect_login_fields None) \<and> has_password (detect_login_fields None)"
    by (simp add: detect_login_fields_def)
  show ?thesis
    using a b c d e f g raw unfolding v by (auto intro: verdict.equality)
qed

theorem C5_omitted_fields_keep_defaults_witness:
  "\<not> has_label (split_on newline (upper ''I cannot tell'')) ''VERIFIED:'' \<and>
   \<not> has_label (split_on newline (upper ''I cannot tell'')) ''CONFIDENCE:'' \<and>
   \<not> has_label (split_on newline (upper ''I cannot tell'')) ''DESCRIPTION:'' \<and>
   unlabelled ''I cannot tell'' \<and>
   verify_ui_state (Some ''I cannot tell'') =
     \<lparr>verified = False, confidence = ''low'', description = ''I cannot tell'',
      raw_response = ''I cannot tell''\<rparr> \<and>
   initial_field_detection True (Some ''I cannot tell'') = password_only ''Fallback: password only''"
proof -
  have a: "\<not> has_label (split_on newline (upper ''I cannot tell'')) ''VERIFIED:''" by code_simp
  have b: "\<not> has_label (split_on newline (upper ''I cannot tell'')) ''CONFIDENCE:''" by code_simp
  have c: "\<not> has_label (split_on newline (upper ''I cannot tell'')) ''DESCRIPTION:''" by code_simp
  have d: "unlabelled ''I cannot tell''" by code_simp
  show ?thesis
    using a b c d C5_omitted_fields_keep_defaults[of "''I cannot tell''"] by simp
qed

theorem C5_partial_reply_counterexample:
  "\<not> has_label (split_on newline (upper ''VERIFIED: yes'')) ''CONFIDENCE:'' \<and>
   \<not> has_label (split_on newline (upper ''VERIFIED: yes'')) ''DESCRIPTION:'' \<and>
   verified (verify_ui_state (Some ''VERIFIED: yes'')) \<and>
   unlabelled ''no idea'' \<and>
   \<not> has_password (detect_login_fields (Some ''no idea''))"
  by code_simp

text \<open>
  C8. The displayed username \<^verbatim>\<open>CORP\Administrator\<close> (also when written with two
  backslashes) matches the target \<^verbatim>\<open>administrator\<close> once the domain prefix is
  stripped and case is ignored. The check of the displayed username then leaves the
  session untouched (no user switch is attempted) and yields a field detection without
  username field and with password field, for which the credentials are entered
  password-only.
\<close>

theorem C8_cached_user_password_only:
  "username_matches corp_administrator ''administrator'' \<and>
   username_matches (''CORP'' @ [backslash, backslash] @ ''Administrator'') ''administrator'' \<and>
   check_displayed_username w cfg ''administrator''
       (detected\<lparr>displayed_username := Some corp_administrator\<rparr>) s =
     (Inr \<lparr>has_username = False, has_password = True,
           displayed_username = Some corp_administrator,
           fd_description = ''Cached user matches: '' @ corp_administrator\<rparr>, s) \<and>
   enter_credentials w ''administrator'' password (cached_user corp_administrator) =
     seqn [log_action ''Enter password'' ''Typing password (username cached)'',
           click_vnc_canvas, click_vnc_canvas, click_vnc_at_coordinates 960 560,
           raw w (KeyPress ''Control+A''), raw w (KeyPress ''Backspace''),
           type_text_vnc w password]"
  using corp_matches corp_matches2 corp_nonempty
  by (simp add: check_displayed_username_def cached_user_def enter_credentials_def ret_def)

theorem C8_cached_user_password_only_witness:
  "check_displayed_username (scripted_world []) orchestrator_config ''administrator''
       (password_only ''x''\<lparr>displayed_username := Some corp_administrator\<rparr>) initial_vm_state =
     (Inr \<lparr>has_username = False, has_password = True,
           displayed_username = Some corp_administrator,
           fd_description = ''Cached user matches: '' @ corp_administrator\<rparr>, initial_vm_state)"
  using C8_cached_user_password_only[of "scripted_world []" orchestrator_config
      "password_only ''x''" initial_vm_state "''pw''"]
  by simp

text \<open>
  C9. With an oracle, the protocol polls for the login screen up to
  \<open>max_wait div 10\<close> times (the ten seconds between polls are not modelled). When the
  oracle reports no login screen on the polls before \<open>N\<close> and reports one on poll \<open>N\<close>,
  with \<open>N * 10\<close> within the timeout, the loop makes exactly the polls 1 to \<open>N\<close>,
  confirms the login screen once (it returns the screenshot of poll \<open>N\<close>) and stops;
  the wake gesture is issued, and logged, exactly before the polls \<open>k\<close> with
  \<open>k = 1\<close> or \<open>k mod 3 = 0\<close>, that is on polls 1, 3, 6, 9, ...
\<close>

theorem C9_login_screen_polling:
  assumes "llm_client cfg" and "1 \<le> N" and "int N * 10 \<le> max_wait"
    and "\<forall>k. 1 \<le> k \<and> k < N \<longrightarrow> poll_negative w k" and "poll_positive w N"
  shows "wait_for_login_screen w cfg (max_wait div 10) 0 s =
           (Inr (Some (login_check_name N @ ''.png'')),
            s\<lparr>screenshots := screenshots s @ map (\<lambda>k. login_check_name k @ ''.png'') [1..<Suc N],
              action_log := action_log s @
                concat (map (\<lambda>k. if k = 1 \<or> k mod 3 = 0
                                  then [(''Send Ctrl+Alt+Del'', ''Bringing up login screen'')]
                                  else []) [1..<Suc N]),
              driver := driver s @
                concat (map (\<lambda>k. (if k = 1 \<or> k mod 3 = 0 then [CtrlAltDel] else []) @
                                  [Screenshot (login_check_name k)]) [1..<Suc N])\<rparr>)"
proof -
  have le: "int N \<le> max_wait div 10" using assms(3) by linarith
  have pos: "0 < N" using assms(2) by simp
  have neg: "\<forall>k. 0 < k \<and> k < N \<longrightarrow> poll_negative w k" using assms(4) by simp
  have "wait_for_login_screen w cfg (max_wait div 10) 0 s =
           (Inr (Some (login_check_name N @ ''.png'')), after_polls 0 N s)"
    by (rule wait_until_positive[OF assms(1) le pos neg assms(5)])
  then show ?thesis
    by (simp add: after_polls_def poll_log_def poll_events_def wake_poll_def cong: map_cong)
qed


theorem C9_login_screen_polling_witness:
  "llm_client orchestrator_config \<and> (1::nat) \<le> 4 \<and> int 4 * 10 \<le> 120 \<and>
   poll_negative (login_at_poll 4) 1 \<and> poll_negative (login_at_poll 4) 2 \<and>
   poll_negative (login_at_poll 4) 3 \<and> poll_positive (login_at_poll 4) 4 \<and>
   fst (wait_for_login_screen (login_at_poll 4) orchestrator_config (120 div 10) 0 initial_vm_state) =
     Inr (Some (login_check_name 4 @ ''.png'')) \<and>
   driver (snd (wait_for_login_screen (login_at_poll 4) orchestrator_config (120 div 10) 0
                  initial_vm_state)) =
     [CtrlAltDel, Screenshot (login_check_name 1), Screenshot (login_check_name 2),
      CtrlAltDel, Screenshot (login_check_name 3), Screenshot (login_check_name 4)]"
proof -
  have n1: "login_check_name 1 \<noteq> login_check_name 4" by code_simp
  have n2: "login_check_name 2 \<noteq> login_check_name 4" by code_simp
  have n3: "login_check_name 3 \<noteq> login_check_name 4" by code_simp
  have p1: "poll_negative (login_at_poll 4) 1"
    using n1 verified_no by (simp add: poll_negative_def login_at_poll_def)
  have p2: "poll_negative (login_at_poll 4) 2"
    using n2 verified_no by (simp add: poll_negative_def login_at_poll_def)
  have p3: "poll_negative (login_at_poll 4) 3"
    using n3 verified_no by (simp add: poll_negative_def login_at_poll_def)
  have p4: "poll_positive (login_at_poll 4) 4"
    using verified_yes by (simp add: poll_positive_def login_at_poll_def)
  have cases: "\<And>k::nat. 1 \<le> k \<Longrightarrow> k < 4 \<Longrightarrow> k = 1 \<or> k = 2 \<or> k = 3" by arith
  have neg: "\<forall>k. 1 \<le> k \<and> k < 4 \<longrightarrow> poll_negative (login_at_poll 4) k"
    using p1 p2 p3 cases by blast
  have cfg: "llm_client orchestrator_config" by (simp add: orchestrator_config_def)
  have b: "int 4 * 10 \<le> 120" by simp
  show ?thesis
    using C9_login_screen_polling[OF cfg _ b neg p4, of initial_vm_state] p1 p2 p3 p4 cfg
    by (simp add: upt_1_5 initial_vm_state_def)
qed

text \<open>
  C3, as amended. Each retried operation (the two command runners, which open the run
  dialog and run the command, the Services Manager and the Server Manager) always
  returns, raising nothing, after the attempts \<open>1, 2, ..., n\<close> for some \<open>n\<close> that is at
  most \<open>max_retries\<close>: the counter starts at 1 in every call, whatever the session
  state, and the cap counts the tries, the first included. With the default value 2
  an operation makes at most 2 tries.
\<close>

theorem C3_attempts_capped:
  "bounded_attempts cfg (run_powershell_interactive_tries w cfg command) \<and>
   bounded_attempts cfg (run_powershell_command_tries w cfg command) \<and>
   bounded_attempts cfg (open_services_manager_tries w cfg) \<and>
   bounded_attempts cfg (open_server_manager_tries w cfg) \<and>
   run_powershell_interactive w cfg command =
     result_only (run_powershell_interactive_tries w cfg command) \<and>
   run_powershell_command w cfg command =
     result_only (run_powershell_command_tries w cfg command) \<and>
   open_services_manager w cfg = result_only (open_services_manager_tries w cfg) \<and>
   open_server_manager w cfg = result_only (open_server_manager_tries w cfg) \<and>
   max_retries orchestrator_config = 2"
proof -
  have a: "bounded_attempts cfg (run_powershell_interactive_tries w cfg command)"
    unfolding run_powershell_interactive_tries_def powershell_tries_def
    by (rule for_attempts_bounded) (intro allI attempt_with_handler)
  have b: "bounded_attempts cfg (run_powershell_command_tries w cfg command)"
    unfolding run_powershell_command_tries_def powershell_tries_def
    by (rule for_attempts_bounded) (intro allI attempt_with_handler)
  have c: "bounded_attempts cfg (open_services_manager_tries w cfg)"
    unfolding open_services_manager_tries_def
    by (rule for_attempts_bounded) (intro allI attempt_with_handler)
  have d: "bounded_attempts cfg (open_server_manager_tries w cfg)"
    unfolding open_server_manager_tries_def
    by (rule for_attempts_bounded) (intro allI attempt_with_handler)
  show ?thesis
    using a b c d
    by (simp add: run_powershell_interactive_def run_powershell_command_def
          open_services_manager_def open_server_manager_def orchestrator_config_def)
qed

theorem C3_attempts_capped_witness:
  "bounded_attempts orchestrator_config
     (run_powershell_interactive_tries (scripted_world red_text_reply) orchestrator_config ''dir'') \<and>
   bounded_attempts orchestrator_config
     (open_server_manager_tries (scripted_world red_text_reply) orchestrator_config)"
  using C3_attempts_capped[of orchestrator_config "scripted_world red_text_reply" "''dir''"]
  by simp

theorem C3_third_try_counterexample:
  "max_retries orchestrator_config = 2 \<and>
   fst (run_powershell_interactive_tries (scripted_world red_text_reply) orchestrator_config
          ''dir'' initial_vm_state) = Inr (False, [1, 2])"
proof -
  obtain s' where "powershell_tries (scripted_world red_text_reply) orchestrator_config
      ''10_powershell_interactive_output_attempt'' ''10_interactive_powershell_failed_attempt''
      ''dir'' initial_vm_state = (Inr (False, [1, 2]), s')"
    using powershell_always_error[OF orchestrator_config_simps(1) orchestrator_config_simps(2)
        scripted_world_simps(1), of red_text_reply]
      red_world_dialog red_world_error by blast
  then show ?thesis
    by (simp add: run_powershell_interactive_tries_def orchestrator_config_simps)
qed



text \<open>
  C7, as amended. During the command protocol, with an oracle and no driver fault, a
  lock screen described on the screenshot of the run dialog (Ctrl+Alt+Delete, unlock or
  lock screen in the description) makes the command operation return \<open>False\<close> at once:
  the attempt stops after the screenshot, no further attempt is made however many are
  left, and this holds at whatever attempt the lock screen is seen. The run is not
  aborted: the orchestrator records the command as a failed step and goes on with the
  remaining commands, each of which is tried once more in the same way.
\<close>

theorem C7_lock_screen_fails_command:
  assumes "llm_client cfg" and "no_faults w" and "1 \<le> max_retries cfg"
    and "lock_screen_shown w 1"
  shows "run_powershell_interactive_tries w cfg command s =
           (Inr (False, [1]), after_lock_screen 1 s) \<and>
         run_powershell_command_tries w cfg command s =
           (Inr (False, [1]), after_lock_screen 1 s) \<and>
         run_ps_commands w cfg i commands steps s =
           (Inr (steps @ failed_steps i (length steps) commands),
            (after_lock_screen 1 ^^ length commands) s) \<and>
         (int a \<le> max_retries cfg \<and> lock_screen_shown w a \<longrightarrow>
            for_attempts
              (\<lambda>attempt. catch (powershell_attempt w cfg output_name command attempt)
                            (on_attempt_failure w cfg failed_name attempt))
              (max_retries cfg) a tried s =
            (Inr (False, tried @ [a]), after_lock_screen a s))"
proof -
  have le: "int 1 \<le> max_retries cfg" using assms(3) by simp
  have t: "\<And>output_name failed_name cmd s.
      powershell_tries w cfg output_name failed_name cmd s =
        (Inr (False, [1]), after_lock_screen 1 s)"
    unfolding powershell_tries_def after_lock_screen_def
    using powershell_lock_screen[OF assms(1) assms(2) le assms(4), where tried="[]"]
    by simp
  have r: "\<forall>cmd s. run_powershell_interactive w cfg cmd s = (Inr False, after_lock_screen 1 s)"
    unfolding run_powershell_interactive_def run_powershell_interactive_tries_def
    using t by (simp add: result_only_apply)
  have g: "int a \<le> max_retries cfg \<and> lock_screen_shown w a \<longrightarrow>
            for_attempts
              (\<lambda>attempt. catch (powershell_attempt w cfg output_name command attempt)
                            (on_attempt_failure w cfg failed_name attempt))
              (max_retries cfg) a tried s =
            (Inr (False, tried @ [a]), after_lock_screen a s)"
    unfolding after_lock_screen_def
    using powershell_lock_screen[OF assms(1) assms(2), of a] by blast
  show ?thesis
    using t g run_ps_commands_lock_screen[OF r]
    by (simp add: run_powershell_interactive_tries_def run_powershell_command_tries_def)
qed

theorem C7_lock_screen_fails_command_witness:
  "llm_client orchestrator_config \<and> no_faults (scripted_world lock_screen_reply) \<and>
   1 \<le> max_retries orchestrator_config \<and>
   lock_screen_shown (scripted_world lock_screen_reply) 1 \<and>
   run_powershell_interactive_tries (scripted_world lock_screen_reply) orchestrator_config
       ''dir'' initial_vm_state =
     (Inr (False, [1]), after_lock_screen 1 initial_vm_state)"
  using C7_lock_screen_fails_command[OF orchestrator_config_simps(1)
      scripted_world_simps(1)[of lock_screen_reply] _ lock_world_lock[of 1],
      of "''dir''" initial_vm_state]
    lock_world_lock[of 1]
  by (simp add: orchestrator_config_simps scripted_world_simps)

theorem C7_run_goes_on_counterexample:
  "lock_screen_shown (scripted_world lock_screen_reply) 1 \<and>
   run_ps_commands (scripted_world lock_screen_reply) orchestrator_config 1 [''dir'', ''ls''] []
       initial_vm_state =
     (Inr [plain_step 1 (''Execute PowerShell command '' @ str_nat 1 @ '': dir'') False,
           plain_step 2 (''Execute PowerShell command '' @ str_nat 2 @ '': ls'') False],
      after_lock_screen 1 (after_lock_screen 1 initial_vm_state))"
proof -
  have le: "int 1 \<le> max_retries orchestrator_config"
    by (simp add: orchestrator_config_simps)
  have t: "\<And>cmd s.
      powershell_tries (scripted_world lock_screen_reply) orchestrator_config
        ''10_powershell_interactive_output_attempt'' ''10_interactive_powershell_failed_attempt''
        cmd s = (Inr (False, [1]), after_lock_screen 1 s)"
    unfolding powershell_tries_def after_lock_screen_def
    using powershell_lock_screen[OF orchestrator_config_simps(1)
        scripted_world_simps(1)[of lock_screen_reply] le lock_world_lock[of 1], where tried="[]"]
    by simp
  have r: "\<forall>cmd s. run_powershell_interactive (scripted_world lock_screen_reply)
             orchestrator_config cmd s = (Inr False, after_lock_screen 1 s)"
    unfolding run_powershell_interactive_def run_powershell_interactive_tries_def
    using t by (simp add: result_only_apply)
  show ?thesis
    using run_ps_commands_lock_screen[OF r, of 1 "[''dir'', ''ls'']" "[]" initial_vm_state]
      lock_world_lock[of 1]
    by (simp add: numeral_2_eq_2)
qed






end
